theory Spec2Isabelle
  imports Main "HOL-Library.Word" "HOL-Library.List_Lexorder"
begin

unbundle bit_operations_syntax

section \<open>Python values used by nvidia\_check.py\<close>

text \<open>
  Python strings are modelled as \<open>string\<close>: one \<open>char\<close> per code point, restricted to
  the code points below 256.  Exceptions are values of the type \<open>exn\<close>; a computation
  that may raise returns \<open>exn + 'a\<close>, with \<open>Inl\<close> for the raised exception.
  \<open>KeyboardInterrupt\<close> stands for the exceptions that are not instances of
  \<open>Exception\<close>.
\<close>

datatype exn = FileNotFoundError | TimeoutExpired | URLError | ValueError
  | AttributeError | EOFError | OSError | KeyboardInterrupt

definition is_Exception :: "exn \<Rightarrow> bool" where
  "is_Exception e = (e \<noteq> KeyboardInterrupt)"

text \<open>\<open>\d\<close> of the \<open>re\<close> module on a \<open>str\<close> pattern: the decimal digits.\<close>

definition is_digit :: "char \<Rightarrow> bool" where
  "is_digit c = (c \<in> set ''0123456789'')"

text \<open>
  The characters that \<open>str.strip()\<close> and \<open>str.split()\<close> treat as white space: tab to
  carriage return, the four separators 0x1C to 0x1F, space, NEL and the no-break
  space.
\<close>

definition is_space :: "char \<Rightarrow> bool" where
  "is_space c = (of_char c \<in> {9, 10, 11, 12, 13, 28, 29, 30, 31, 32, 133, 160 :: nat})"

definition digit_val :: "char \<Rightarrow> nat" where
  "digit_val c = of_char c - 48"

definition strip :: "string \<Rightarrow> string" where
  "strip s = rev (dropWhile is_space (rev (dropWhile is_space s)))"

text \<open>
  \<open>re.findall(r'\d+', v)\<close>: scanning from the left, a digit starts a match that takes
  every digit that follows; scanning goes on after the match.
\<close>

function findall_digits :: "string \<Rightarrow> string list" where
  "findall_digits [] = []"
| "findall_digits (c # cs) =
     (if is_digit c
      then takeWhile is_digit (c # cs) # findall_digits (dropWhile is_digit cs)
      else findall_digits cs)"
  by pat_completeness auto
termination
  by (relation "measure length") (auto simp: length_dropWhile_le less_Suc_eq_le)

text \<open>
  \<open>int(s)\<close> on a \<open>str\<close>, base ten.  White space around the literal is stripped: for
  \<open>int\<close> that is tab to carriage return, space, NEL and the no-break space (the
  separators 0x1C to 0x1F are not stripped here).  One sign may come first, and the
  digits may be grouped by single underscores; any other text raises \<open>ValueError\<close>.
  So does a literal with more digits than the interpreter's limit for the conversion
  of a decimal string, \<open>sys.int_info.default_max_str_digits = 4300\<close>: every digit
  counts, leading zeros too, underscores and the sign do not.
\<close>

definition int_max_str_digits :: nat where
  "int_max_str_digits = 4300"

definition is_int_space :: "char \<Rightarrow> bool" where
  "is_int_space c = (of_char c \<in> {9, 10, 11, 12, 13, 32, 133, 160 :: nat})"

definition int_strip :: "string \<Rightarrow> string" where
  "int_strip s = rev (dropWhile is_int_space (rev (dropWhile is_int_space s)))"

fun int_digits :: "bool \<Rightarrow> nat \<Rightarrow> string \<Rightarrow> exn + nat" where
  "int_digits after_digit acc [] = (if after_digit then Inr acc else Inl ValueError)"
| "int_digits after_digit acc (c # cs) =
     (if is_digit c then int_digits True (acc * 10 + digit_val c) cs
      else if c = CHR ''_'' \<and> after_digit then int_digits False acc cs
      else Inl ValueError)"

definition int_literal :: "string \<Rightarrow> exn + nat" where
  "int_literal s =
     (case int_digits False 0 s of
        Inl e \<Rightarrow> Inl e
      | Inr n \<Rightarrow>
          if length (filter is_digit s) > int_max_str_digits then Inl ValueError else Inr n)"

definition py_int :: "string \<Rightarrow> exn + int" where
  "py_int s =
     (case int_strip s of
        [] \<Rightarrow> Inl ValueError
      | c # cs \<Rightarrow>
          if c = CHR ''-'' then map_sum id (\<lambda>n. - int n) (int_literal cs)
          else if c = CHR ''+'' then map_sum id int (int_literal cs)
          else map_sum id int (int_literal (c # cs)))"

text \<open>\<open>tuple(map(int, parts))\<close>: the first conversion that raises ends the evaluation.\<close>

fun map_int :: "string list \<Rightarrow> exn + int list" where
  "map_int [] = Inr []"
| "map_int (p # ps) =
     (case py_int p of
        Inl e \<Rightarrow> Inl e
      | Inr n \<Rightarrow> (case map_int ps of Inl e \<Rightarrow> Inl e | Inr ns \<Rightarrow> Inr (n # ns)))"

definition version_tuple :: "string \<Rightarrow> exn + int list" where
  "version_tuple v = (let parts = findall_digits v in map_int parts)"

text \<open>
  \<open>a > b\<close> on tuples of integers: the first position where the items differ decides;
  when there is none, the longer tuple is the greater.
\<close>

fun tuple_gt :: "int list \<Rightarrow> int list \<Rightarrow> bool" where
  "tuple_gt (x # xs) (y # ys) = (if x = y then tuple_gt xs ys else x > y)"
| "tuple_gt (x # xs) [] = True"
| "tuple_gt [] ys = False"

section \<open>compare\_versions\<close>

text \<open>
  The body of the \<open>try\<close> evaluates both tuples, then compares; the handler catches
  \<open>ValueError\<close> and \<open>AttributeError\<close> and returns 0, any other exception leaves the
  function.
\<close>

definition compare_versions :: "string \<Rightarrow> string \<Rightarrow> exn + int" where
  "compare_versions current latest =
     (case version_tuple current of
        Inl e \<Rightarrow> if e = ValueError \<or> e = AttributeError then Inr 0 else Inl e
      | Inr current_tuple \<Rightarrow>
          (case version_tuple latest of
             Inl e \<Rightarrow> if e = ValueError \<or> e = AttributeError then Inr 0 else Inl e
           | Inr latest_tuple \<Rightarrow>
               if tuple_gt latest_tuple current_tuple then Inr 1
               else if latest_tuple = current_tuple then Inr 0
               else Inr (- 1)))"

subsection \<open>The comparison as the specification words it\<close>

text \<open>
  The specification's reading, written independently of the code: cut the string at
  every character that is not a digit, keep the pieces that are not empty (the maximal
  digit runs), read each as a decimal number, and order the sequences
  lexicographically (the order of \<open>HOL-Library.List_Lexorder\<close>: a strict prefix is
  smaller, otherwise the first differing element decides).
\<close>

fun cut_at :: "(char \<Rightarrow> bool) \<Rightarrow> string \<Rightarrow> string list" where
  "cut_at sep [] = [[]]"
| "cut_at sep (c # cs) =
     (if sep c then [] # cut_at sep cs
      else (case cut_at sep cs of [] \<Rightarrow> [[c]] | f # fs \<Rightarrow> (c # f) # fs))"

definition spec_digit_runs :: "string \<Rightarrow> string list" where
  "spec_digit_runs s = filter (\<lambda>f. f \<noteq> []) (cut_at (\<lambda>c. \<not> is_digit c) s)"

definition dec_value :: "string \<Rightarrow> nat" where
  "dec_value s = foldl (\<lambda>a c. a * 10 + digit_val c) 0 s"

definition spec_sequence :: "string \<Rightarrow> int list" where
  "spec_sequence s = map (\<lambda>r. int (dec_value r)) (spec_digit_runs s)"

datatype verdict = NEWER | EQUAL | OLDER

fun verdict_code :: "verdict \<Rightarrow> int" where
  "verdict_code NEWER = 1"
| "verdict_code EQUAL = 0"
| "verdict_code OLDER = - 1"

definition spec_compare :: "string \<Rightarrow> string \<Rightarrow> verdict" where
  "spec_compare current latest =
     (if spec_sequence current < spec_sequence latest then NEWER
      else if spec_sequence latest = spec_sequence current then EQUAL
      else OLDER)"

definition has_digit :: "string \<Rightarrow> bool" where
  "has_digit s = (\<exists>c \<in> set s. is_digit c)"

text \<open>Every maximal digit run of the string is within the interpreter's limit.\<close>

definition within_limit :: "string \<Rightarrow> bool" where
  "within_limit s = list_all (\<lambda>r. length r \<le> int_max_str_digits) (spec_digit_runs s)"

section \<open>More string functions\<close>

text \<open>\<open>str.lower()\<close> on the code points below 256.\<close>

definition lower_char :: "char \<Rightarrow> char" where
  "lower_char c =
     (let n = (of_char c :: nat)
      in if (65 \<le> n \<and> n \<le> 90) \<or> (192 \<le> n \<and> n \<le> 214) \<or> (216 \<le> n \<and> n \<le> 222)
         then char_of (n + 32) else c)"

definition lower :: "string \<Rightarrow> string" where
  "lower s = map lower_char s"

text \<open>\<open>str.split()\<close> without a separator: the maximal runs of characters that are not
  white space.\<close>

function split_ws :: "string \<Rightarrow> string list" where
  "split_ws [] = []"
| "split_ws (c # cs) =
     (if is_space c then split_ws cs
      else takeWhile (\<lambda>x. \<not> is_space x) (c # cs)
             # split_ws (dropWhile (\<lambda>x. \<not> is_space x) cs))"
  by pat_completeness auto
termination
  by (relation "measure length") (auto simp: length_dropWhile_le less_Suc_eq_le)


text \<open>\<open>str(n)\<close> of an integer, as an f-string formats it.\<close>

fun str_nat :: "nat \<Rightarrow> string" where
  "str_nat n =
     (if n < 10 then [char_of (48 + n)] else str_nat (n div 10) @ [char_of (48 + n mod 10)])"

declare str_nat.simps [simp del]

definition str_int :: "int \<Rightarrow> string" where
  "str_int i = (if i < 0 then CHR ''-'' # str_nat (nat (- i)) else str_nat (nat i))"

text \<open>\<open>os.path.join(a, b)\<close> on a POSIX system.\<close>

definition path_join :: "string \<Rightarrow> string \<Rightarrow> string" where
  "path_join a b =
     (if b \<noteq> [] \<and> hd b = CHR ''/'' then b
      else if a = [] \<or> last a = CHR ''/'' then a @ b
      else a @ ''/'' @ b)"

text \<open>The truth value of an \<open>Optional[str]\<close>: \<open>None\<close> and the empty string are false.\<close>

definition truthy :: "string option \<Rightarrow> bool" where
  "truthy v = (case v of None \<Rightarrow> False | Some s \<Rightarrow> s \<noteq> [])"

section \<open>The environment of the program\<close>

text \<open>
  The program talks to its environment through \<open>subprocess.run\<close>, \<open>urlopen\<close>,
  \<open>input\<close>, \<open>print\<close>, the file system and \<open>tempfile\<close>.  Every such call is recorded as
  an \<open>event\<close> in the \<open>trace\<close> of the state, in the order of the calls.  What a call
  returns or raises is given by the environment \<open>env\<close>, as a function of the number
  of events so far and of the arguments of the call: the theorems hold for every
  environment.  \<open>print\<close> and the creation and removal of the temporary directory are
  taken to succeed.  The pictographs that open some of the messages are outside the
  modelled character range and are left out of the message texts.
\<close>

type_synonym path = string
type_synonym bytes = "8 word list"
type_synonym mode = "32 word"

record completed_process =
  returncode :: int
  stdout :: string

text \<open>
  An HTTP response: the \<open>Content-Length\<close> header if present, the bytes of the body,
  the exception, if any, that the \<open>k\<close>-th call of \<open>read(8192)\<close> raises, and the outcome
  of \<open>read().decode('utf-8')\<close>.
\<close>

record response =
  content_length :: "string option"
  body :: bytes
  read_fault :: "nat \<Rightarrow> exn option"
  decoded :: "exn + string"

datatype event =
    Print string
  | Print_exn string exn
  | Print_size int
  | Print_progress int int
  | Input string
  | Run "string list" nat
  | Urlopen string nat
  | Mkdtemp path
  | Rmtree path
  | Open_wb path
  | Write path bytes
  | Stat path
  | Chmod path mode

record env =
  run_result :: "nat \<Rightarrow> string list \<Rightarrow> exn + completed_process"
  urlopen_result :: "nat \<Rightarrow> string \<Rightarrow> exn + response"
  input_result :: "nat \<Rightarrow> string \<Rightarrow> exn + string"
  file_fault :: "nat \<Rightarrow> path \<Rightarrow> exn option"
  temp_name :: "nat \<Rightarrow> path"
  umask :: mode

record regular_file =
  content :: bytes
  st_mode :: mode

record state =
  trace :: "event list"
  files :: "path \<Rightarrow> regular_file option"
  dirs :: "path set"

definition now :: "state \<Rightarrow> nat" where
  "now st = length (trace st)"

definition emit :: "event \<Rightarrow> state \<Rightarrow> state" where
  "emit ev st = st\<lparr>trace := trace st @ [ev]\<rparr>"

definition print :: "string \<Rightarrow> state \<Rightarrow> state" where
  "print s st = emit (Print s) st"

definition print_exn :: "string \<Rightarrow> exn \<Rightarrow> state \<Rightarrow> state" where
  "print_exn s e st = emit (Print_exn s e) st"

definition input :: "env \<Rightarrow> string \<Rightarrow> state \<Rightarrow> (exn + string) \<times> state" where
  "input env prompt st = (input_result env (now st) prompt, emit (Input prompt) st)"

definition run :: "env \<Rightarrow> string list \<Rightarrow> nat \<Rightarrow> state \<Rightarrow> (exn + completed_process) \<times> state"
  where
  "run env argv timeout st = (run_result env (now st) argv, emit (Run argv timeout) st)"

definition urlopen :: "env \<Rightarrow> string \<Rightarrow> nat \<Rightarrow> state \<Rightarrow> (exn + response) \<times> state" where
  "urlopen env url timeout st = (urlopen_result env (now st) url, emit (Urlopen url timeout) st)"

text \<open>
  \<open>open(path, 'wb')\<close> truncates an existing file and keeps its mode; a new file gets
  the mode \<open>0o666\<close> without the bits of the umask.
\<close>

definition open_wb :: "env \<Rightarrow> path \<Rightarrow> state \<Rightarrow> (exn + unit) \<times> state" where
  "open_wb env p st =
     (case file_fault env (now st) p of
        Some e \<Rightarrow> (Inl e, emit (Open_wb p) st)
      | None \<Rightarrow>
          let m = (case files st p of None \<Rightarrow> 438 AND NOT (umask env) | Some f \<Rightarrow> st_mode f)
          in (Inr (), emit (Open_wb p)
                (st\<lparr>files := (files st)(p \<mapsto> \<lparr>content = [], st_mode = m\<rparr>)\<rparr>)))"

definition write_file :: "env \<Rightarrow> path \<Rightarrow> bytes \<Rightarrow> state \<Rightarrow> (exn + unit) \<times> state" where
  "write_file env p chunk st =
     (case file_fault env (now st) p of
        Some e \<Rightarrow> (Inl e, emit (Write p chunk) st)
      | None \<Rightarrow>
          (case files st p of
             None \<Rightarrow> (Inl OSError, emit (Write p chunk) st)
           | Some f \<Rightarrow>
               (Inr (), emit (Write p chunk)
                  (st\<lparr>files := (files st)(p \<mapsto> f\<lparr>content := content f @ chunk\<rparr>)\<rparr>))))"

definition os_stat :: "env \<Rightarrow> path \<Rightarrow> state \<Rightarrow> (exn + mode) \<times> state" where
  "os_stat env p st =
     (case file_fault env (now st) p of
        Some e \<Rightarrow> (Inl e, emit (Stat p) st)
      | None \<Rightarrow>
          (case files st p of
             None \<Rightarrow> (Inl FileNotFoundError, emit (Stat p) st)
           | Some f \<Rightarrow> (Inr (st_mode f), emit (Stat p) st)))"

definition os_chmod :: "env \<Rightarrow> path \<Rightarrow> mode \<Rightarrow> state \<Rightarrow> (exn + unit) \<times> state" where
  "os_chmod env p m st =
     (case file_fault env (now st) p of
        Some e \<Rightarrow> (Inl e, emit (Chmod p m) st)
      | None \<Rightarrow>
          (case files st p of
             None \<Rightarrow> (Inl FileNotFoundError, emit (Chmod p m) st)
           | Some f \<Rightarrow>
               (Inr (), emit (Chmod p m) (st\<lparr>files := (files st)(p \<mapsto> f\<lparr>st_mode := m\<rparr>)\<rparr>))))"

definition S_IXUSR :: mode where "S_IXUSR = 64"
definition S_IXGRP :: mode where "S_IXGRP = 8"
definition S_IXOTH :: mode where "S_IXOTH = 1"

text \<open>
  \<open>tempfile.TemporaryDirectory()\<close>: entering creates a directory, leaving removes
  it with everything below it.
\<close>

definition inside :: "path \<Rightarrow> path \<Rightarrow> bool" where
  "inside d p = (take (length d + 1) p = d @ ''/'')"

definition mkdtemp :: "env \<Rightarrow> state \<Rightarrow> path \<times> state" where
  "mkdtemp env st =
     (let d = temp_name env (now st)
      in (d, emit (Mkdtemp d) (st\<lparr>dirs := insert d (dirs st)\<rparr>)))"

definition cleanup :: "path \<Rightarrow> state \<Rightarrow> state" where
  "cleanup d st =
     emit (Rmtree d)
       (st\<lparr>files := (\<lambda>p. if inside d p then None else files st p),
           dirs := {x \<in> dirs st. x \<noteq> d \<and> \<not> inside d x}\<rparr>)"

section \<open>The class NvidiaDriverCheck\<close>

definition NVIDIA_LINUX_LATEST_URL :: string where
  "NVIDIA_LINUX_LATEST_URL = ''https://download.nvidia.com/XFree86/Linux-x86_64/latest.txt''"

definition NVIDIA_LINUX_DOWNLOAD_BASE :: string where
  "NVIDIA_LINUX_DOWNLOAD_BASE = ''https://download.nvidia.com/XFree86/Linux-x86_64''"

definition manual_url :: string where
  "manual_url = ''https://www.nvidia.com/Download/index.aspx''"

subsection \<open>Queries through nvidia-smi\<close>


definition get_driver_version :: "env \<Rightarrow> state \<Rightarrow> (exn + string option) \<times> state" where
  "get_driver_version env st =
     (case run env [''nvidia-smi'', ''--query-gpu=driver_version'', ''--format=csv,noheader''] 5 st of
        (Inl e, st1) \<Rightarrow>
          if e = FileNotFoundError \<or> e = TimeoutExpired then (Inr None, st1) else (Inl e, st1)
      | (Inr result, st1) \<Rightarrow>
          if returncode result = 0 then (Inr (Some (strip (stdout result))), st1)
          else (Inr None, st1))"



subsection \<open>get\_latest\_driver\_version\<close>

text \<open>
  Every exception that is an instance of \<open>Exception\<close> is caught, reported and turned
  into \<open>None\<close>; so is a body without a token.
\<close>

definition fetch_failed :: "exn \<Rightarrow> state \<Rightarrow> (exn + string option) \<times> state" where
  "fetch_failed e st =
     (if is_Exception e
      then (Inr None, print_exn ''Could not fetch latest driver version'' e st)
      else (Inl e, st))"

definition get_latest_driver_version :: "env \<Rightarrow> state \<Rightarrow> (exn + string option) \<times> state" where
  "get_latest_driver_version env st =
     (case urlopen env NVIDIA_LINUX_LATEST_URL 10 st of
        (Inl e, st1) \<Rightarrow> fetch_failed e st1
      | (Inr resp, st1) \<Rightarrow>
          (case decoded resp of
             Inl e \<Rightarrow> fetch_failed e st1
           | Inr text \<Rightarrow>
               let content = strip text;
                   parts = split_ws content
               in (case parts of
                     [] \<Rightarrow> (Inr None, st1)
                   | p # _ \<Rightarrow> (Inr (Some p), st1))))"

definition get_download_url :: "string \<Rightarrow> string" where
  "get_download_url version =
     NVIDIA_LINUX_DOWNLOAD_BASE @ ''/'' @ version @ ''/NVIDIA-Linux-x86_64-'' @ version @ ''.run''"

subsection \<open>download\_driver\<close>

text \<open>
  The \<open>while True\<close> loop: \<open>remaining\<close> is the part of the body not yet read, \<open>k\<close> the
  number of reads done, \<open>downloaded\<close> the running count.  A read returns the next
  8192 bytes, fewer at the end, none when the body is exhausted.  Progress is printed
  when \<open>file_size\<close> is true, that is an integer other than zero; the event keeps the
  two operands of the quotient, whose floating-point value is not modelled.
\<close>

definition chunk_size :: nat where
  "chunk_size = 8192"

function read_loop ::
  "env \<Rightarrow> response \<Rightarrow> path \<Rightarrow> int option \<Rightarrow> bytes \<Rightarrow> nat \<Rightarrow> int \<Rightarrow> state \<Rightarrow> (exn + unit) \<times> state"
  where
  "read_loop env resp dest_path file_size remaining k downloaded st =
     (case read_fault resp k of
        Some e \<Rightarrow> (Inl e, st)
      | None \<Rightarrow>
          if take chunk_size remaining = [] then (Inr (), st)
          else
            (case write_file env dest_path (take chunk_size remaining) st of
               (Inl e, st1) \<Rightarrow> (Inl e, st1)
             | (Inr u, st1) \<Rightarrow>
                 read_loop env resp dest_path file_size (drop chunk_size remaining) (Suc k)
                   (downloaded + int (length (take chunk_size remaining)))
                   (case file_size of
                      None \<Rightarrow> st1
                    | Some n \<Rightarrow>
                        if n \<noteq> 0
                        then emit (Print_progress
                               (downloaded + int (length (take chunk_size remaining))) n) st1
                        else st1)))"
  by pat_completeness auto
termination
  by (relation "measure (\<lambda>(env, resp, dest_path, file_size, remaining, k, downloaded, st).
        length remaining)")
    (auto simp: chunk_size_def)

declare read_loop.simps [simp del]

text \<open>
  The header: \<open>None\<close> and the empty string are false and left alone; any other value
  goes through \<open>int\<close>, which may raise \<open>ValueError\<close>, and the size is printed.  The
  event keeps the integer; the quotient \<open>file_size / (1024*1024)\<close> that the program
  prints is a floating-point number and is not modelled, nor is the \<open>OverflowError\<close>
  of this division when the size is about \<open>2 ^ 1044\<close> bytes or more (\<open>download_driver\<close>
  would then report the failure and return \<open>False\<close>).
\<close>

definition read_file_size :: "response \<Rightarrow> state \<Rightarrow> (exn + int option) \<times> state" where
  "read_file_size resp st =
     (if truthy (content_length resp)
      then (case py_int (the (content_length resp)) of
              Inl e \<Rightarrow> (Inl e, st)
            | Inr n \<Rightarrow> (Inr (Some n), emit (Print_size n) st))
      else (Inr None, st))"

text \<open>The body of the \<open>try\<close> of \<open>download_driver\<close>.\<close>

definition download_body :: "env \<Rightarrow> string \<Rightarrow> path \<Rightarrow> state \<Rightarrow> (exn + bool) \<times> state" where
  "download_body env url dest_path st =
     (let st = print ''Downloading driver...'' st;
          st = print (''URL: '' @ url) st;
          st = print ''This may take several minutes...'' st
      in case urlopen env url 300 st of
           (Inl e, st) \<Rightarrow> (Inl e, st)
         | (Inr resp, st) \<Rightarrow>
             (case read_file_size resp st of
                (Inl e, st) \<Rightarrow> (Inl e, st)
              | (Inr file_size, st) \<Rightarrow>
                  (case open_wb env dest_path st of
                     (Inl e, st) \<Rightarrow> (Inl e, st)
                   | (Inr u, st) \<Rightarrow>
                       (case read_loop env resp dest_path file_size (body resp) 0 0 st of
                          (Inl e, st) \<Rightarrow> (Inl e, st)
                        | (Inr u, st) \<Rightarrow>
                            let st = print [] st;
                                st = print (''Downloaded to: '' @ dest_path) st
                            in (case os_stat env dest_path st of
                                  (Inl e, st) \<Rightarrow> (Inl e, st)
                                | (Inr m, st) \<Rightarrow>
                                    (case os_chmod env dest_path
                                            (m OR S_IXUSR OR S_IXGRP OR S_IXOTH) st of
                                       (Inl e, st) \<Rightarrow> (Inl e, st)
                                     | (Inr u, st) \<Rightarrow> (Inr True, st)))))))"

definition download_driver :: "env \<Rightarrow> string \<Rightarrow> path \<Rightarrow> state \<Rightarrow> (exn + bool) \<times> state" where
  "download_driver env url dest_path st =
     (case download_body env url dest_path st of
        (Inl e, st1) \<Rightarrow>
          if is_Exception e then (Inr False, print_exn ''Download failed'' e st1)
          else (Inl e, st1)
      | (Inr r, st1) \<Rightarrow> (Inr r, st1))"

subsection \<open>install\_driver\<close>

definition install_prompt :: string where
  "install_prompt = ''Proceed with installation? (yes/no): ''"

text \<open>The part of \<open>install_driver\<close> after the confirmation: the \<open>try\<close> statement.\<close>

definition run_installer :: "env \<Rightarrow> path \<Rightarrow> state \<Rightarrow> (exn + bool) \<times> state" where
  "run_installer env driver_path st =
     (let st = print [] st;
          st = print ''Starting driver installation...'' st;
          st = print ''Note: This will likely require X server to be stopped.'' st;
          st = print [] st
      in case run env [''sudo'', driver_path] 600 st of
           (Inl e, st) \<Rightarrow>
             if e = TimeoutExpired then (Inr False, print ''Installation timed out'' st)
             else if is_Exception e then (Inr False, print_exn ''Installation error'' e st)
             else (Inl e, st)
         | (Inr result, st) \<Rightarrow>
             if returncode result = 0
             then (Inr True,
                   print ''You may need to reboot your system for changes to take effect.''
                     (print ''Driver installation completed successfully!'' (print [] st)))
             else (Inr False,
                   print (''Installation failed with exit code: '' @ str_int (returncode result))
                     st))"

definition install_driver :: "env \<Rightarrow> path \<Rightarrow> state \<Rightarrow> (exn + bool) \<times> state" where
  "install_driver env driver_path st =
     (let st = print [] st;
          st = print ''Driver installation requires root privileges'' st;
          st = print (''The installer will run: sudo '' @ driver_path) st;
          st = print [] st
      in case input env install_prompt st of
           (Inl e, st) \<Rightarrow> (Inl e, st)
         | (Inr line, st) \<Rightarrow>
             let response = lower (strip line)
             in if response \<noteq> ''yes'' then (Inr False, print ''Installation cancelled.'' st)
                else run_installer env driver_path st)"

subsection \<open>The download-then-install sequence\<close>

text \<open>
  \<open>_download_and_install_driver\<close>.  The \<open>with\<close> statement removes the temporary
  directory when its block is left, by a \<open>return\<close> or by an exception.
\<close>

definition download_then_install :: "env \<Rightarrow> string \<Rightarrow> path \<Rightarrow> state \<Rightarrow> (exn + bool) \<times> state"
  where
  "download_then_install env download_url driver_path st =
     (case download_driver env download_url driver_path st of
        (Inl e, st) \<Rightarrow> (Inl e, st)
      | (Inr ok, st) \<Rightarrow>
          if ok then install_driver env driver_path st
          else (Inr False,
                print (''Visit: '' @ manual_url) (print ''Download failed. Please try manually:'' st)))"

definition download_and_install_driver :: "env \<Rightarrow> string \<Rightarrow> state \<Rightarrow> (exn + bool) \<times> state" where
  "download_and_install_driver env version st =
     (let download_url = get_download_url version;
          (temp_dir, st) = mkdtemp env st;
          driver_filename = ''NVIDIA-Linux-x86_64-'' @ version @ ''.run'';
          driver_path = path_join temp_dir driver_filename;
          (r, st) = download_then_install env download_url driver_path st
      in (r, cleanup temp_dir st))"

subsection \<open>The two flows and run\_check\<close>

definition update_prompt :: string where
  "update_prompt = ''Would you like to download and install it? (yes/no): ''"

definition report_unknown_latest :: "state \<Rightarrow> state" where
  "report_unknown_latest st =
     print (''Please check manually at: '' @ manual_url)
       (print ''Could not determine latest driver version'' st)"

definition install_fresh_driver :: "env \<Rightarrow> state \<Rightarrow> (exn + bool) \<times> state" where
  "install_fresh_driver env st =
     (let st = print [] st;
          st = print ''Fetching latest NVIDIA driver version...'' st
      in case get_latest_driver_version env st of
           (Inl e, st) \<Rightarrow> (Inl e, st)
         | (Inr latest_version, st) \<Rightarrow>
             if \<not> truthy latest_version then (Inr False, report_unknown_latest st)
             else
               let st = print (''Latest available version: '' @ the latest_version) st;
                   st = print [] st
               in case input env update_prompt st of
                    (Inl e, st) \<Rightarrow> (Inl e, st)
                  | (Inr line, st) \<Rightarrow>
                      let response = lower (strip line)
                      in if response \<noteq> ''yes''
                         then (Inr False,
                               print manual_url
                                 (print ''Installation cancelled. To install manually, visit:'' st))
                         else download_and_install_driver env (the latest_version) st)"

text \<open>
  The part of \<open>check_for_updates\<close> that follows the two version queries: the
  comparison and what it leads to.  The value that \<open>_download_and_install_driver\<close>
  returns is dropped.
\<close>

definition offer_update :: "env \<Rightarrow> string \<Rightarrow> string \<Rightarrow> state \<Rightarrow> (exn + unit) \<times> state" where
  "offer_update env current_version latest_version st =
     (case compare_versions current_version latest_version of
        Inl e \<Rightarrow> (Inl e, st)
      | Inr comparison \<Rightarrow>
          if comparison < 0
          then (Inr (), print ''Your driver is up to date (or newer than latest release)'' st)
          else if comparison = 0
          then (Inr (), print ''Your driver is up to date'' st)
          else
            let st = print ''A newer driver version is available!'' st;
                st = print [] st
            in case input env update_prompt st of
                 (Inl e, st) \<Rightarrow> (Inl e, st)
               | (Inr line, st) \<Rightarrow>
                   let response = lower (strip line)
                   in if response = ''yes''
                      then (case download_and_install_driver env latest_version st of
                              (Inl e, st) \<Rightarrow> (Inl e, st)
                            | (Inr r, st) \<Rightarrow> (Inr (), st))
                      else (Inr (),
                            print manual_url
                              (print ''Update cancelled. To update manually, visit:'' st)))"

definition check_for_updates :: "env \<Rightarrow> state \<Rightarrow> (exn + unit) \<times> state" where
  "check_for_updates env st =
     (case get_driver_version env st of
        (Inl e, st) \<Rightarrow> (Inl e, st)
      | (Inr current_version, st) \<Rightarrow>
          if \<not> truthy current_version
          then (Inr (), print ''Cannot check for updates - current driver version unknown'' st)
          else
            let st = print [] st;
                st = print ''Checking for driver updates...'' st
            in case get_latest_driver_version env st of
                 (Inl e, st) \<Rightarrow> (Inl e, st)
               | (Inr latest_version, st) \<Rightarrow>
                   if \<not> truthy latest_version then (Inr (), report_unknown_latest st)
                   else
                     let st = print (''Current version: '' @ the current_version) st;
                         st = print (''Latest version:  '' @ the latest_version) st;
                         st = print [] st
                     in offer_update env (the current_version) (the latest_version) st)"





section \<open>Notions used to state the properties\<close>

text \<open>The state after a sequence of further events.\<close>

definition emits :: "event list \<Rightarrow> state \<Rightarrow> state" where
  "emits evs st = st\<lparr>trace := trace st @ evs\<rparr>"

text \<open>What \<open>install_driver\<close> prints before it asks, ending with the question, and what it
  prints after a confirmation, ending with the privileged call.\<close>

definition confirm_events :: "path \<Rightarrow> event list" where
  "confirm_events driver_path =
     [Print [], Print ''Driver installation requires root privileges'',
      Print (''The installer will run: sudo '' @ driver_path), Print [],
      Input install_prompt]"

definition start_events :: "path \<Rightarrow> event list" where
  "start_events driver_path =
     [Print [], Print ''Starting driver installation...'',
      Print ''Note: This will likely require X server to be stopped.'', Print [],
      Run [''sudo'', driver_path] 600]"

fun is_Run :: "event \<Rightarrow> bool" where
  "is_Run (Run argv t) = True"
| "is_Run ev = False"

fun is_Input :: "event \<Rightarrow> bool" where
  "is_Input (Input prompt) = True"
| "is_Input ev = False"

text \<open>The events added by a computation that started in \<open>st\<close> and ended in \<open>st'\<close>.\<close>

definition new_events :: "state \<Rightarrow> state \<Rightarrow> event list" where
  "new_events st st' = drop (now st) (trace st')"

text \<open>
  A state with nothing in it, and an environment that answers every call of a kind in
  the same way, whatever the time: no file operation fails, the umask is \<open>0o022\<close>.
\<close>

definition st0 :: state where
  "st0 = \<lparr>trace = [], files = (\<lambda>p. None), dirs = {}\<rparr>"

definition steady_env ::
  "(string list \<Rightarrow> exn + completed_process) \<Rightarrow> (string \<Rightarrow> exn + response)
     \<Rightarrow> (string \<Rightarrow> exn + string) \<Rightarrow> env" where
  "steady_env r u i =
     \<lparr>run_result = (\<lambda>t. r), urlopen_result = (\<lambda>t. u), input_result = (\<lambda>t. i),
      file_fault = (\<lambda>t p. None), temp_name = (\<lambda>t. ''/tmp/tmpa1b2c3''), umask = 18\<rparr>"

text \<open>The first white-space delimited token of a text, in the words of the
  specification: skip the leading white space, then take everything up to the next
  white space.\<close>

definition first_token :: "string \<Rightarrow> string" where
  "first_token s = takeWhile (\<lambda>c. \<not> is_space c) (dropWhile is_space s)"

definition fetch_events :: "event list" where
  "fetch_events = [Urlopen NVIDIA_LINUX_LATEST_URL 10]"

definition version_query :: "string list" where
  "version_query = [''nvidia-smi'', ''--query-gpu=driver_version'', ''--format=csv,noheader'']"

text \<open>The states in which the two flows ask for the latest version.\<close>

definition fresh_fetch_state :: "state \<Rightarrow> state" where
  "fresh_fetch_state st = emits [Print [], Print ''Fetching latest NVIDIA driver version...''] st"

definition update_fetch_state :: "state \<Rightarrow> state" where
  "update_fetch_state st =
     emits [Run version_query 5, Print [], Print ''Checking for driver updates...''] st"

text \<open>A response whose body decodes to the given text, and one that carries the given
  bytes with the given \<open>Content-Length\<close>; no read fails.\<close>

definition text_response :: "string \<Rightarrow> response" where
  "text_response s = \<lparr>content_length = None, body = [], read_fault = (\<lambda>k. None), decoded = Inr s\<rparr>"

definition bytes_response :: "string option \<Rightarrow> bytes \<Rightarrow> response" where
  "bytes_response h bs =
     \<lparr>content_length = h, body = bs, read_fault = (\<lambda>k. None), decoded = Inl ValueError\<rparr>"

text \<open>What \<open>check_for_updates\<close> prints once both versions are known, and the events
  with which it offers a newer version.\<close>

definition versions_events :: "string \<Rightarrow> string \<Rightarrow> event list" where
  "versions_events cur lat =
     [Print (''Current version: '' @ cur), Print (''Latest version:  '' @ lat), Print []]"

definition offer_events :: "event list" where
  "offer_events = [Print ''A newer driver version is available!'', Print [], Input update_prompt]"

definition decline_events :: "event list" where
  "decline_events = [Print ''Update cancelled. To update manually, visit:'', Print manual_url]"

text \<open>\<open>check_for_updates\<close> drops the value of the download-then-install sequence.\<close>

definition drop_value :: "(exn + bool) \<times> state \<Rightarrow> (exn + unit) \<times> state" where
  "drop_value r = (case r of (Inl e, st) \<Rightarrow> (Inl e, st) | (Inr b, st) \<Rightarrow> (Inr (), st))"

text \<open>
  \<open>steps P st st'\<close>: the trace of \<open>st'\<close> is the trace of \<open>st\<close> followed by events that
  all satisfy \<open>P\<close>.  An event is \<open>silent\<close> when it is neither a \<open>subprocess.run\<close> nor an
  \<open>input\<close>.
\<close>

definition steps :: "(event \<Rightarrow> bool) \<Rightarrow> state \<Rightarrow> state \<Rightarrow> bool" where
  "steps P st st' = (take (now st) (trace st') = trace st \<and> list_all P (new_events st st'))"

definition silent :: "event \<Rightarrow> bool" where
  "silent ev = (\<not> is_Run ev \<and> \<not> is_Input ev)"

text \<open>
  The body cut into the chunks that successive calls of \<open>read(8192)\<close> return, and the
  events of a transfer that writes these chunks one after the other: a \<open>write\<close> of the
  chunk, then the progress line with the running count when the size is known and
  not zero.
\<close>

function chunks :: "bytes \<Rightarrow> bytes list" where
  "chunks bs = (if bs = [] then [] else take chunk_size bs # chunks (drop chunk_size bs))"
  by pat_completeness auto
termination
  by (relation "measure length") (auto simp: chunk_size_def)

declare chunks.simps [simp del]

definition progress_events :: "int option \<Rightarrow> int \<Rightarrow> event list" where
  "progress_events file_size downloaded =
     (case file_size of
        None \<Rightarrow> []
      | Some n \<Rightarrow> if n \<noteq> 0 then [Print_progress downloaded n] else [])"

fun chunk_events :: "path \<Rightarrow> int option \<Rightarrow> int \<Rightarrow> bytes list \<Rightarrow> event list" where
  "chunk_events dest file_size downloaded [] = []"
| "chunk_events dest file_size downloaded (c # cs) =
     Write dest c # progress_events file_size (downloaded + int (length c))
       @ chunk_events dest file_size (downloaded + int (length c)) cs"

text \<open>
  The value that \<open>download_driver\<close> gives to \<open>file_size\<close>, and the events of a download
  that goes through: the announcement and the request, the size if there is one, the
  opening of the file, the transfer, and the change of mode.
\<close>

definition header_size :: "response \<Rightarrow> exn + int option" where
  "header_size resp =
     (if truthy (content_length resp)
      then (case py_int (the (content_length resp)) of Inl e \<Rightarrow> Inl e | Inr n \<Rightarrow> Inr (Some n))
      else Inr None)"

definition size_events :: "int option \<Rightarrow> event list" where
  "size_events file_size = (case file_size of None \<Rightarrow> [] | Some n \<Rightarrow> [Print_size n])"

definition request_events :: "string \<Rightarrow> event list" where
  "request_events url =
     [Print ''Downloading driver...'', Print (''URL: '' @ url),
      Print ''This may take several minutes...'', Urlopen url 300]"

definition download_events :: "string \<Rightarrow> path \<Rightarrow> int option \<Rightarrow> bytes \<Rightarrow> mode \<Rightarrow> event list" where
  "download_events url dest file_size bs m =
     request_events url @ size_events file_size @ [Open_wb dest]
       @ chunk_events dest file_size 0 (chunks bs)
       @ [Print [], Print (''Downloaded to: '' @ dest), Stat dest, Chmod dest m]"

definition executable :: "mode \<Rightarrow> mode" where
  "executable m = m OR S_IXUSR OR S_IXGRP OR S_IXOTH"

text \<open>The mode of a file just opened for writing.\<close>

definition opened_mode :: "env \<Rightarrow> state \<Rightarrow> path \<Rightarrow> mode" where
  "opened_mode env st p =
     (case files st p of None \<Rightarrow> 438 AND NOT (umask env) | Some f \<Rightarrow> st_mode f)"


text \<open>Sequencing: an exception of the first computation ends the sequence.\<close>

definition then_do ::
  "(exn + 'a) \<times> state \<Rightarrow> ('a \<Rightarrow> state \<Rightarrow> (exn + 'b) \<times> state) \<Rightarrow> (exn + 'b) \<times> state" where
  "then_do m k = (case m of (Inl e, s) \<Rightarrow> (Inl e, s) | (Inr x, s) \<Rightarrow> k x s)"

text \<open>
  The block of the \<open>with\<close> statement of \<open>_download_and_install_driver\<close>, started in the
  state in which the temporary directory has just been created.
\<close>

definition sequence_body :: "env \<Rightarrow> string \<Rightarrow> state \<Rightarrow> (exn + bool) \<times> state" where
  "sequence_body env version st =
     download_then_install env (get_download_url version)
       (path_join (temp_name env (now st)) (''NVIDIA-Linux-x86_64-'' @ version @ ''.run''))
       (emits [Mkdtemp (temp_name env (now st))]
          (st\<lparr>dirs := insert (temp_name env (now st)) (dirs st)\<rparr>))"






section \<open>Properties of the string functions\<close>

lemma digit_not_space: "is_digit c \<Longrightarrow> \<not> is_int_space c"
  by (auto simp: is_digit_def is_int_space_def)

lemma digit_not_sign: "is_digit c \<Longrightarrow> c \<noteq> CHR ''-'' \<and> c \<noteq> CHR ''+''"
  by (auto simp: is_digit_def)

lemma int_strip_digits:
  assumes "s \<noteq> []" and "\<forall>c \<in> set s. is_digit c"
  shows "int_strip s = s"
proof -
  from assms obtain c cs where s: "s = c # cs" by (cases s) auto
  with assms have "\<not> is_int_space c" by (simp add: digit_not_space)
  then have a: "dropWhile is_int_space s = s" by (simp add: s)
  from assms have "rev s \<noteq> []" and "\<not> is_int_space (hd (rev s))"
    by (simp_all add: digit_not_space hd_rev)
  then have "dropWhile is_int_space (rev s) = rev s" by (cases "rev s") auto
  with a show ?thesis by (simp add: int_strip_def)
qed

lemma int_digits_all_digits:
  "\<forall>c \<in> set s. is_digit c \<Longrightarrow> s \<noteq> [] \<or> b \<Longrightarrow>
     int_digits b acc s = Inr (foldl (\<lambda>a c. a * 10 + digit_val c) acc s)"
  by (induction s arbitrary: b acc) auto

lemma py_int_digits:
  assumes "s \<noteq> []" and "\<forall>c \<in> set s. is_digit c"
  shows "py_int s =
    (if length s \<le> int_max_str_digits then Inr (int (dec_value s)) else Inl ValueError)"
proof -
  from assms obtain c cs where s: "s = c # cs" by (cases s) auto
  with assms have c: "c \<noteq> CHR ''-''" "c \<noteq> CHR ''+''" by (simp_all add: digit_not_sign)
  have "int_digits False 0 s = Inr (dec_value s)"
    unfolding dec_value_def using assms by (intro int_digits_all_digits) auto
  moreover have "filter is_digit s = s" using assms(2) by simp
  ultimately have "int_literal s =
      (if length s \<le> int_max_str_digits then Inr (dec_value s) else Inl ValueError)"
    by (simp add: int_literal_def)
  moreover have "int_strip s = c # cs" using int_strip_digits [OF assms] s by simp
  ultimately show ?thesis using c by (simp add: py_int_def s)
qed

lemma findall_digits_runs:
  "r \<in> set (findall_digits s) \<Longrightarrow> r \<noteq> [] \<and> (\<forall>c \<in> set r. is_digit c)"
proof (induction s rule: findall_digits.induct)
  case 1
  then show ?case by simp
next
  case (2 c cs)
  show ?case
  proof (cases "is_digit c")
    case False
    with 2 show ?thesis by simp
  next
    case True
    with "2.prems" have "r = c # takeWhile is_digit cs
        \<or> r \<in> set (findall_digits (dropWhile is_digit cs))"
      by simp
    then show ?thesis
    proof
      assume "r = c # takeWhile is_digit cs"
      with True show ?thesis by (auto dest: set_takeWhileD)
    next
      assume "r \<in> set (findall_digits (dropWhile is_digit cs))"
      with True "2.IH"(1) show ?thesis by simp
    qed
  qed
qed

lemma map_int_digit_runs:
  "\<forall>r \<in> set rs. r \<noteq> [] \<and> (\<forall>c \<in> set r. is_digit c) \<Longrightarrow>
     map_int rs =
       (if list_all (\<lambda>r. length r \<le> int_max_str_digits) rs
        then Inr (map (\<lambda>r. int (dec_value r)) rs) else Inl ValueError)"
  by (induction rs) (auto simp: py_int_digits)

lemma version_tuple_total:
  "version_tuple v =
     (if list_all (\<lambda>r. length r \<le> int_max_str_digits) (findall_digits v)
      then Inr (map (\<lambda>r. int (dec_value r)) (findall_digits v)) else Inl ValueError)"
  unfolding version_tuple_def Let_def
  by (rule map_int_digit_runs) (auto dest: findall_digits_runs)

lemma cut_at_not_Nil: "cut_at sep s \<noteq> []"
  by (induction s) (auto split: list.splits)

lemma cut_at_run:
  "\<forall>c \<in> set ds. \<not> sep c \<Longrightarrow>
     cut_at sep (ds @ rest) = (ds @ hd (cut_at sep rest)) # tl (cut_at sep rest)"
  by (induction ds) (auto split: list.splits simp: cut_at_not_Nil)

lemma cut_at_after_run:
  "rest = [] \<or> sep (hd rest) \<Longrightarrow> hd (cut_at sep rest) = []"
  by (cases rest) auto

lemma dropWhile_stops: "dropWhile P xs = [] \<or> \<not> P (hd (dropWhile P xs))"
  by (metis hd_dropWhile)

lemma findall_digits_spec: "findall_digits s = spec_digit_runs s"
proof (induction s rule: findall_digits.induct)
  case 1
  show ?case by (simp add: spec_digit_runs_def)
next
  case (2 c cs)
  let ?sep = "\<lambda>c. \<not> is_digit c"
  show ?case
  proof (cases "is_digit c")
    case False
    with 2 show ?thesis by (simp add: spec_digit_runs_def)
  next
    case True
    let ?ds = "takeWhile is_digit (c # cs)"
    let ?rest = "dropWhile is_digit cs"
    have split: "?ds @ ?rest = c # cs" using True by simp
    have ds: "\<forall>d \<in> set ?ds. \<not> ?sep d" by (auto dest: set_takeWhileD)
    have ds_ne: "?ds \<noteq> []" using True by simp
    have "?rest = [] \<or> \<not> is_digit (hd ?rest)"
      by (rule dropWhile_stops)
    then have hd_rest: "hd (cut_at ?sep ?rest) = []"
      using cut_at_after_run [of ?rest ?sep] by simp
    have eq1: "cut_at ?sep (c # cs) = ?ds # tl (cut_at ?sep ?rest)"
    proof -
      have "cut_at ?sep (?ds @ ?rest)
          = (?ds @ hd (cut_at ?sep ?rest)) # tl (cut_at ?sep ?rest)"
        by (rule cut_at_run [OF ds])
      then show ?thesis by (simp only: split hd_rest append_Nil2)
    qed
    have eq2: "filter (\<lambda>f. f \<noteq> []) (tl (cut_at ?sep ?rest))
        = filter (\<lambda>f. f \<noteq> []) (cut_at ?sep ?rest)"
      using hd_rest cut_at_not_Nil [of ?sep ?rest] by (cases "cut_at ?sep ?rest") auto
    have "spec_digit_runs (c # cs)
        = filter (\<lambda>f. f \<noteq> []) (?ds # tl (cut_at ?sep ?rest))"
      by (simp only: spec_digit_runs_def eq1)
    also have "\<dots> = ?ds # filter (\<lambda>f. f \<noteq> []) (tl (cut_at ?sep ?rest))"
      using ds_ne by (simp only: filter.simps not_False_eq_True if_True)
    also have "\<dots> = ?ds # spec_digit_runs ?rest"
      by (simp only: eq2 spec_digit_runs_def)
    finally have "spec_digit_runs (c # cs) = ?ds # spec_digit_runs ?rest" .
    with 2 True show ?thesis by simp
  qed
qed

lemma tuple_gt_lex: "tuple_gt a b \<longleftrightarrow> b < a"
  by (induction a b rule: tuple_gt.induct) auto

lemma version_tuple_spec:
  "version_tuple v = (if within_limit v then Inr (spec_sequence v) else Inl ValueError)"
  by (simp add: version_tuple_total spec_sequence_def within_limit_def findall_digits_spec)

lemma compare_versions_eq:
  "compare_versions current latest =
     Inr (if within_limit current \<and> within_limit latest
          then (if spec_sequence current < spec_sequence latest then 1
                else if spec_sequence latest = spec_sequence current then 0 else - 1)
          else 0)"
  by (simp add: compare_versions_def version_tuple_spec tuple_gt_lex)

lemma compare_versions_cases:
  "compare_versions cur lat = Inr (- 1) \<or> compare_versions cur lat = Inr 0
     \<or> compare_versions cur lat = Inr 1"
  by (simp add: compare_versions_eq)

lemmas string_eval = is_digit_def is_space_def digit_val_def strip_def py_int_def
  version_tuple_def compare_versions_def int_strip_def is_int_space_def int_literal_def
  int_max_str_digits_def

text \<open>A string of digits is its own single digit run; a run of zeros reads as 0.\<close>

lemma findall_digits_all:
  assumes "s \<noteq> []" and "\<forall>c \<in> set s. is_digit c"
  shows "findall_digits s = [s]"
proof -
  from assms obtain c cs where s: "s = c # cs" by (cases s) auto
  with assms(2) have c: "is_digit c" and all: "\<forall>x \<in> set cs. is_digit x" by simp_all
  from all have tw: "takeWhile is_digit cs = cs" by simp
  from all have dw: "dropWhile is_digit cs = []" by simp
  have "findall_digits (c # cs) = takeWhile is_digit (c # cs) # findall_digits (dropWhile is_digit cs)"
    using c by (simp only: findall_digits.simps if_True)
  also have "\<dots> = [c # cs]"
    using c by (simp only: dw findall_digits.simps takeWhile.simps if_True tw)
  finally show ?thesis by (simp only: s)
qed

lemma dec_value_zeros: "dec_value (replicate n (CHR ''0'')) = 0"
proof -
  have "foldl (\<lambda>a c. a * 10 + digit_val c) 0 (replicate n (CHR ''0'')) = 0"
    by (induction n) (simp_all add: digit_val_def)
  then show ?thesis by (simp add: dec_value_def)
qed

lemma zeros_run:
  "spec_digit_runs (replicate (Suc n) (CHR ''0'')) = [replicate (Suc n) (CHR ''0'')]"
proof -
  have "findall_digits (replicate (Suc n) (CHR ''0'')) = [replicate (Suc n) (CHR ''0'')]"
    by (rule findall_digits_all) (simp_all add: is_digit_def)
  then show ?thesis by (simp only: findall_digits_spec)
qed

lemma long_zeros:
  "\<not> within_limit (replicate 4301 (CHR ''0''))"
  "spec_sequence (replicate 4301 (CHR ''0'')) = [0]"
proof -
  have r: "replicate 4301 (CHR ''0'') = replicate (Suc 4300) (CHR ''0'')" by simp
  show "\<not> within_limit (replicate 4301 (CHR ''0''))"
    unfolding r within_limit_def zeros_run by (simp add: int_max_str_digits_def)
  show "spec_sequence (replicate 4301 (CHR ''0'')) = [0]"
    unfolding r spec_sequence_def zeros_run by (simp add: dec_value_zeros)
qed

text \<open>\<open>int\<close> does raise on other strings; the empty tuple comes from a string without digits.\<close>

lemma py_int_rejects: "py_int ''5.8'' = Inl ValueError" "py_int [] = Inl ValueError"
  by (simp_all add: string_eval)

lemma findall_digits_Nil: "findall_digits s = [] \<longleftrightarrow> \<not> has_digit s"
  by (induction s rule: findall_digits.induct) (simp_all add: has_digit_def)

lemma spec_sequence_Nil: "spec_sequence s = [] \<longleftrightarrow> \<not> has_digit s"
  by (simp add: spec_sequence_def findall_digits_spec [symmetric] findall_digits_Nil)

lemma cut_at_same_digits:
  "list_all2 (\<lambda>x y. x = y \<or> \<not> is_digit x \<and> \<not> is_digit y) a b \<Longrightarrow>
     cut_at (\<lambda>c. \<not> is_digit c) a = cut_at (\<lambda>c. \<not> is_digit c) b"
  by (induction a b rule: list_all2_induct) auto

lemma same_runs_equal:
  assumes "spec_digit_runs a = spec_digit_runs b"
  shows "compare_versions a b = Inr 0"
proof -
  from assms have "spec_sequence a = spec_sequence b" and "within_limit a = within_limit b"
    by (simp_all add: spec_sequence_def within_limit_def)
  then show ?thesis by (simp add: compare_versions_eq)
qed

lemma one_sequence: "spec_sequence ''1'' = [1]" "within_limit ''1''"
  by (simp_all add: spec_sequence_def within_limit_def spec_digit_runs_def dec_value_def
      is_digit_def digit_val_def int_max_str_digits_def)

lemma long_zeros_against_one:
  "version_tuple (replicate 4301 (CHR ''0'')) = Inl ValueError"
  "compare_versions (replicate 4301 (CHR ''0'')) ''1'' = Inr 0"
  "spec_compare (replicate 4301 (CHR ''0'')) ''1'' = NEWER"
  by (simp_all add: version_tuple_spec compare_versions_eq spec_compare_def long_zeros
      one_sequence)

subsection \<open>Claims about compare\_versions\<close>

text \<open>
  Claim C1 fails in two places.  It ends with: two identifiers that differ only in
  non-numeric characters compare EQUAL.  Read as "the digits of both, in order, are
  the same", this fails: \<open>12\<close> and \<open>1.2\<close> have the same digits, but the dot separates
  two runs, so the tuples are \<open>(12,)\<close> and \<open>(1, 2)\<close> and the result is OLDER.  And the
  comparison is not lexicographic for every pair of strings: a run of 4301 zeros
  reads as 0, which is smaller than 1, but \<open>int\<close> raises \<open>ValueError\<close> on it and the
  handler returns EQUAL.
\<close>

theorem compare_versions_separator_counterexample:
  "filter is_digit ''12'' = filter is_digit ''1.2''
   \<and> compare_versions ''12'' ''1.2'' = Inr (- 1)
   \<and> spec_compare (replicate 4301 (CHR ''0'')) ''1'' = NEWER
   \<and> compare_versions (replicate 4301 (CHR ''0'')) ''1'' = Inr 0"
proof -
  have "filter is_digit ''12'' = filter is_digit ''1.2''"
    by (simp add: is_digit_def)
  moreover have "compare_versions ''12'' ''1.2'' = Inr (- 1)"
    by (simp add: string_eval)
  ultimately show ?thesis
    using long_zeros_against_one(2,3) by simp
qed

text \<open>
  Claim C1, amended.  For every pair of strings whose digit runs have at most 4300
  digits each, \<open>compare_versions current latest\<close> returns 1, 0 or -1 exactly as the
  specification's comparison of the two sequences of integers, read from the maximal
  digit runs, says NEWER, EQUAL or OLDER; when a digit run is longer, on either side,
  it returns 0.  Two identifiers with the same maximal digit runs compare EQUAL; so
  do two identifiers of the same length that agree wherever either of them has a
  digit (they differ only by other non-numeric characters in the place of
  non-numeric characters).  The three examples of the specification hold.
\<close>

theorem compare_versions_lexicographic:
  "(within_limit current \<and> within_limit latest \<longrightarrow>
      compare_versions current latest = Inr (verdict_code (spec_compare current latest)))
   \<and> (\<not> (within_limit current \<and> within_limit latest) \<longrightarrow>
      compare_versions current latest = Inr (verdict_code EQUAL))
   \<and> (\<forall>a b. spec_digit_runs a = spec_digit_runs b
          \<longrightarrow> compare_versions a b = Inr (verdict_code EQUAL))
   \<and> (\<forall>a b. list_all2 (\<lambda>x y. x = y \<or> \<not> is_digit x \<and> \<not> is_digit y) a b
          \<longrightarrow> compare_versions a b = Inr (verdict_code EQUAL))
   \<and> compare_versions ''580.105.08'' ''580.105.08'' = Inr (verdict_code EQUAL)
   \<and> compare_versions ''580.105.08'' ''580.110.00'' = Inr (verdict_code NEWER)
   \<and> compare_versions ''580.105.08'' ''1'' = Inr (verdict_code OLDER)"
proof (intro conjI allI impI)
  assume "within_limit current \<and> within_limit latest"
  then show "compare_versions current latest = Inr (verdict_code (spec_compare current latest))"
    by (simp add: compare_versions_eq spec_compare_def)
next
  assume "\<not> (within_limit current \<and> within_limit latest)"
  then show "compare_versions current latest = Inr (verdict_code EQUAL)"
    by (simp add: compare_versions_eq)
next
  fix a b :: string
  assume "spec_digit_runs a = spec_digit_runs b"
  then show "compare_versions a b = Inr (verdict_code EQUAL)"
    by (simp add: same_runs_equal)
next
  fix a b
  assume "list_all2 (\<lambda>x y. x = y \<or> \<not> is_digit x \<and> \<not> is_digit y) a b"
  then have "spec_digit_runs a = spec_digit_runs b"
    by (simp add: spec_digit_runs_def cut_at_same_digits)
  then show "compare_versions a b = Inr (verdict_code EQUAL)"
    by (simp add: same_runs_equal)
qed (simp_all add: string_eval)

theorem compare_versions_lexicographic_witness:
  "within_limit ''580.105.08'' \<and> within_limit ''580.110.00''
   \<and> spec_compare ''580.105.08'' ''580.110.00'' = NEWER
   \<and> compare_versions ''580.105.08'' ''580.110.00'' = Inr 1
   \<and> \<not> within_limit (replicate 4301 (CHR ''0''))
   \<and> compare_versions (replicate 4301 (CHR ''0'')) ''1'' = Inr 0
   \<and> list_all2 (\<lambda>x y. x = y \<or> \<not> is_digit x \<and> \<not> is_digit y) ''580.105.08'' ''580-105_08''
   \<and> compare_versions ''580.105.08'' ''580-105_08'' = Inr 0"
proof -
  have w: "within_limit ''580.105.08''" "within_limit ''580.110.00''"
    by (simp_all add: within_limit_def spec_digit_runs_def is_digit_def int_max_str_digits_def)
  have s: "spec_compare ''580.105.08'' ''580.110.00'' = NEWER"
    by (simp add: spec_compare_def spec_sequence_def spec_digit_runs_def dec_value_def
        is_digit_def digit_val_def)
  have h: "list_all2 (\<lambda>x y. x = y \<or> \<not> is_digit x \<and> \<not> is_digit y)
      ''580.105.08'' ''580-105_08''"
    by (simp add: is_digit_def)
  from compare_versions_lexicographic [of "''580.105.08''" "''580.110.00''"]
    compare_versions_lexicographic [of "replicate 4301 (CHR ''0'')" "''1''"]
    w s h long_zeros(1)
  show ?thesis by simp
qed

text \<open>
  Claim C2.  The claim is what the handler of \<open>compare_versions\<close> is there for: an
  input that cannot be read gives EQUAL, never NEWER.  The code does so when \<open>int\<close>
  raises (the run of 4301 zeros below), and when neither string has a digit; but a
  \<open>current\<close> without digits gives the empty tuple, which is smaller than every other
  tuple, and the result against \<open>1\<close> is NEWER.  The evaluation of the code at this
  input:
\<close>

theorem compare_versions_no_digits_failing_input:
  "findall_digits ''abc'' = []
   \<and> compare_versions ''abc'' ''1'' = Inr 1
   \<and> compare_versions ''abc'' ''xyz'' = Inr 0
   \<and> version_tuple (replicate 4301 (CHR ''0'')) = Inl ValueError
   \<and> compare_versions (replicate 4301 (CHR ''0'')) ''1'' = Inr 0"
proof -
  have "findall_digits ''abc'' = []"
    by (simp add: is_digit_def)
  moreover have "compare_versions ''abc'' ''1'' = Inr 1"
    by (simp add: string_eval)
  moreover have "compare_versions ''abc'' ''xyz'' = Inr 0"
    by (simp add: string_eval)
  ultimately show ?thesis
    using long_zeros_against_one(1,2) by simp
qed

text \<open>
  Claim C10 says that the conversion of a digit run cannot raise, so that the handler
  is never entered.  A run of 4301 digits is a counterexample: \<open>int\<close> raises
  \<open>ValueError\<close>, and \<open>compare_versions\<close> returns 0 through its handler.
\<close>

theorem compare_versions_handler_counterexample:
  "findall_digits (replicate 4301 (CHR ''0'')) = [replicate 4301 (CHR ''0'')]
   \<and> py_int (replicate 4301 (CHR ''0'')) = Inl ValueError
   \<and> version_tuple (replicate 4301 (CHR ''0'')) = Inl ValueError
   \<and> compare_versions (replicate 4301 (CHR ''0'')) ''1'' = Inr 0"
proof -
  have r: "replicate 4301 (CHR ''0'') \<noteq> []"
    "\<forall>c \<in> set (replicate 4301 (CHR ''0'')). is_digit c"
    by (simp_all add: is_digit_def)
  have "findall_digits (replicate 4301 (CHR ''0'')) = [replicate 4301 (CHR ''0'')]"
    using r by (rule findall_digits_all)
  moreover have "py_int (replicate 4301 (CHR ''0'')) = Inl ValueError"
    by (simp add: py_int_digits [OF r] int_max_str_digits_def)
  ultimately show ?thesis
    using long_zeros_against_one(1,2) by simp
qed

text \<open>
  Claim C10, amended.  \<open>compare_versions\<close> is a function of its two arguments alone and
  always returns one of 1, 0 and -1: it never raises.  The conversion of a digit run
  that \<open>findall\<close> returns raises exactly when the run has more than 4300 digits, and
  then it raises \<open>ValueError\<close>; so \<open>version_tuple\<close> returns when every run is within
  that limit, raises \<open>ValueError\<close> otherwise and never raises anything else, and the
  handler is entered only for a string with a longer run.
\<close>

theorem compare_versions_total:
  "(\<forall>p \<in> set (findall_digits v).
      py_int p = (if length p \<le> int_max_str_digits then Inr (int (dec_value p))
                  else Inl ValueError))
   \<and> (within_limit v \<longrightarrow> version_tuple v = Inr (spec_sequence v))
   \<and> (\<not> within_limit v \<longrightarrow> version_tuple v = Inl ValueError)
   \<and> (\<forall>e. version_tuple v = Inl e \<longrightarrow> e = ValueError)
   \<and> compare_versions current latest \<in> {Inr 1, Inr 0, Inr (- 1)}"
proof (intro conjI ballI allI impI)
  fix p assume "p \<in> set (findall_digits v)"
  then have "p \<noteq> [] \<and> (\<forall>c \<in> set p. is_digit c)" by (rule findall_digits_runs)
  then show "py_int p = (if length p \<le> int_max_str_digits then Inr (int (dec_value p))
      else Inl ValueError)"
    by (simp add: py_int_digits)
next
  assume "within_limit v"
  then show "version_tuple v = Inr (spec_sequence v)" by (simp add: version_tuple_spec)
next
  assume "\<not> within_limit v"
  then show "version_tuple v = Inl ValueError" by (simp add: version_tuple_spec)
next
  fix e assume "version_tuple v = Inl e"
  then show "e = ValueError" by (simp add: version_tuple_spec split: if_splits)
next
  show "compare_versions current latest \<in> {Inr 1, Inr 0, Inr (- 1)}"
    by (simp add: compare_versions_eq)
qed

theorem compare_versions_total_witness:
  "findall_digits ''580.105.08'' = [''580'', ''105'', ''08'']
   \<and> py_int ''580'' = Inr 580 \<and> py_int ''105'' = Inr 105 \<and> py_int ''08'' = Inr 8
   \<and> within_limit ''580.105.08''
   \<and> version_tuple ''580.105.08'' = Inr [580, 105, 8]
   \<and> \<not> within_limit (replicate 4301 (CHR ''0''))
   \<and> version_tuple (replicate 4301 (CHR ''0'')) = Inl ValueError"
proof -
  have h: "findall_digits ''580.105.08'' = [''580'', ''105'', ''08'']"
    by (simp add: is_digit_def)
  have w: "within_limit ''580.105.08''"
    by (simp add: within_limit_def spec_digit_runs_def is_digit_def int_max_str_digits_def)
  have s: "spec_sequence ''580.105.08'' = [580, 105, 8]"
    by (simp add: spec_sequence_def spec_digit_runs_def dec_value_def is_digit_def digit_val_def)
  have d: "dec_value ''580'' = 580" "dec_value ''105'' = 105" "dec_value ''08'' = 8"
    by (simp_all add: dec_value_def digit_val_def)
  from compare_versions_total [of "''580.105.08''" "''a''" "''b''"]
    compare_versions_total [of "replicate 4301 (CHR ''0'')" "''a''" "''b''"]
    h w s d long_zeros(1)
  show ?thesis by (simp add: int_max_str_digits_def)
qed

section \<open>Properties of the program\<close>

subsection \<open>Events and states\<close>

lemma emits_simps [simp]:
  "trace (emits evs st) = trace st @ evs"
  "files (emits evs st) = files st"
  "dirs (emits evs st) = dirs st"
  "now (emits evs st) = now st + length evs"
  "emits evs (emits evs' st) = emits (evs' @ evs) st"
  by (simp_all add: emits_def now_def)

lemma emit_emits: "emit ev st = emits [ev] st"
  by (simp add: emit_def emits_def)

lemma print_emits:
  "print s st = emits [Print s] st"
  "print_exn s e st = emits [Print_exn s e] st"
  by (simp_all add: print_def print_exn_def emit_emits)

lemma input_emits: "input env prompt st = (input_result env (now st) prompt, emits [Input prompt] st)"
  by (simp add: input_def emit_emits)

lemma run_emits: "run env argv t st = (run_result env (now st) argv, emits [Run argv t] st)"
  by (simp add: run_def emit_emits)

lemma urlopen_emits:
  "urlopen env url t st = (urlopen_result env (now st) url, emits [Urlopen url t] st)"
  by (simp add: urlopen_def emit_emits)

lemmas io_emits = emit_emits print_emits input_emits run_emits urlopen_emits

lemma new_events_emits [simp]: "new_events st (emits evs st) = evs"
  by (simp add: new_events_def now_def)

subsection \<open>install\_driver\<close>

lemma plus4: "n + 4 = Suc (Suc (Suc (Suc n)))"
  by simp

lemma install_driver_input_raises:
  assumes "input_result env (now st + 4) install_prompt = Inl e"
  shows "install_driver env p st = (Inl e, emits (confirm_events p) st)"
  using assms
  by (simp add: install_driver_def Let_def confirm_events_def io_emits plus4)

lemma install_driver_cancelled:
  assumes "input_result env (now st + 4) install_prompt = Inr line"
    and "lower (strip line) \<noteq> ''yes''"
  shows "install_driver env p st =
    (Inr False, emits (confirm_events p @ [Print ''Installation cancelled.'']) st)"
  using assms
  by (simp add: install_driver_def Let_def confirm_events_def io_emits plus4)

lemma install_driver_confirmed:
  assumes "input_result env (now st + 4) install_prompt = Inr line"
    and "lower (strip line) = ''yes''"
  shows "install_driver env p st = run_installer env p (emits (confirm_events p) st)"
  using assms
  by (simp add: install_driver_def Let_def confirm_events_def io_emits plus4)

lemma run_installer_cases:
  "run_installer env p st =
     (case run_result env (now st + 4) [''sudo'', p] of
        Inl e \<Rightarrow>
          if e = TimeoutExpired
          then (Inr False, emits (start_events p @ [Print ''Installation timed out'']) st)
          else if is_Exception e
          then (Inr False, emits (start_events p @ [Print_exn ''Installation error'' e]) st)
          else (Inl e, emits (start_events p) st)
      | Inr result \<Rightarrow>
          if returncode result = 0
          then (Inr True, emits (start_events p @
                  [Print [], Print ''Driver installation completed successfully!'',
                   Print ''You may need to reboot your system for changes to take effect.'']) st)
          else (Inr False, emits (start_events p @
                  [Print (''Installation failed with exit code: '' @ str_int (returncode result))]) st))"
  by (simp add: run_installer_def Let_def start_events_def io_emits plus4 split: sum.splits)


lemma plus9: "n + 9 = Suc (Suc (Suc (Suc (Suc (Suc (Suc (Suc (Suc n))))))))"
  by simp

lemma install_driver_accept_cases:
  assumes "input_result env (now st + 4) install_prompt = Inr line"
    and "lower (strip line) = ''yes''"
  shows "install_driver env p st =
     (case run_result env (now st + 9) [''sudo'', p] of
        Inl e \<Rightarrow>
          if e = TimeoutExpired
          then (Inr False,
                emits (confirm_events p @ start_events p @ [Print ''Installation timed out'']) st)
          else if is_Exception e
          then (Inr False,
                emits (confirm_events p @ start_events p @ [Print_exn ''Installation error'' e]) st)
          else (Inl e, emits (confirm_events p @ start_events p) st)
      | Inr result \<Rightarrow>
          if returncode result = 0
          then (Inr True, emits (confirm_events p @ start_events p @
                  [Print [], Print ''Driver installation completed successfully!'',
                   Print ''You may need to reboot your system for changes to take effect.'']) st)
          else (Inr False, emits (confirm_events p @ start_events p @
                  [Print (''Installation failed with exit code: '' @ str_int (returncode result))])
                  st))"
proof -
  have len: "length (confirm_events p) = 5" by (simp add: confirm_events_def)
  have t: "now (emits (confirm_events p) st) + 4 = now st + 9" by (simp add: len)
  show ?thesis
    unfolding install_driver_confirmed [OF assms] run_installer_cases t
    by (simp split: sum.splits)
qed

subsection \<open>Claims about install\_driver\<close>

text \<open>
  Claim C4.  The question of \<open>install_driver\<close> is its fifth event.  When the line
  read there, stripped and in lower case, is not \<open>yes\<close>, \<open>install_driver\<close> returns
  \<open>False\<close> without raising, and the only events are the announcement, the question
  and the cancellation message: \<open>subprocess.run\<close> is not called.  Conversely, if any
  \<open>subprocess.run\<close> is among the events of \<open>install_driver\<close>, the line read was a
  \<open>yes\<close>, and the question was asked before it.
\<close>

theorem install_driver_declined:
  "(\<forall>line. input_result env (now st + 4) install_prompt = Inr line
        \<and> lower (strip line) \<noteq> ''yes'' \<longrightarrow>
      install_driver env p st =
        (Inr False, emits (confirm_events p @ [Print ''Installation cancelled.'']) st))
   \<and> ((\<exists>ev \<in> set (new_events st (snd (install_driver env p st))). is_Run ev) \<longrightarrow>
        (\<exists>line. input_result env (now st + 4) install_prompt = Inr line
           \<and> lower (strip line) = ''yes''))
   \<and> take 5 (new_events st (snd (install_driver env p st))) = confirm_events p"
proof (intro conjI allI impI)
  fix line
  assume "input_result env (now st + 4) install_prompt = Inr line
      \<and> lower (strip line) \<noteq> ''yes''"
  then show "install_driver env p st =
      (Inr False, emits (confirm_events p @ [Print ''Installation cancelled.'']) st)"
    by (simp add: install_driver_cancelled)
next
  assume run: "\<exists>ev \<in> set (new_events st (snd (install_driver env p st))). is_Run ev"
  show "\<exists>line. input_result env (now st + 4) install_prompt = Inr line
      \<and> lower (strip line) = ''yes''"
  proof (cases "input_result env (now st + 4) install_prompt")
    case (Inl e)
    with run show ?thesis
      by (simp add: install_driver_input_raises [OF Inl] confirm_events_def)
  next
    case (Inr line)
    show ?thesis
    proof (cases "lower (strip line) = ''yes''")
      case True
      with Inr show ?thesis by simp
    next
      case False
      with run show ?thesis
        by (simp add: install_driver_cancelled [OF Inr False] confirm_events_def)
    qed
  qed
next
  have len: "length (confirm_events p) = 5" by (simp add: confirm_events_def)
  show "take 5 (new_events st (snd (install_driver env p st))) = confirm_events p"
  proof (cases "input_result env (now st + 4) install_prompt")
    case (Inl e)
    then show ?thesis by (simp add: install_driver_input_raises len)
  next
    case (Inr line)
    show ?thesis
    proof (cases "lower (strip line) = ''yes''")
      case True
      show ?thesis
        unfolding install_driver_accept_cases [OF Inr True]
        by (simp add: len split: sum.splits)
    next
      case False
      then show ?thesis by (simp add: install_driver_cancelled [OF Inr False] len)
    qed
  qed
qed

theorem install_driver_declined_witness:
  "input_result (steady_env (\<lambda>a. Inl FileNotFoundError) (\<lambda>u. Inl URLError) (\<lambda>q. Inr '' No ''))
      (now st0 + 4) install_prompt = Inr '' No ''
   \<and> lower (strip '' No '') = ''no''
   \<and> install_driver
        (steady_env (\<lambda>a. Inl FileNotFoundError) (\<lambda>u. Inl URLError) (\<lambda>q. Inr '' No ''))
        ''/tmp/d.run'' st0 =
      (Inr False, emits (confirm_events ''/tmp/d.run'' @ [Print ''Installation cancelled.'']) st0)"
proof -
  let ?env = "steady_env (\<lambda>a. Inl FileNotFoundError) (\<lambda>u. Inl URLError) (\<lambda>q. Inr '' No '')"
  have h1: "input_result ?env (now st0 + 4) install_prompt = Inr '' No ''"
    by (simp add: steady_env_def)
  have h2: "lower (strip '' No '') = ''no''"
    by code_simp
  from install_driver_declined [of ?env st0 "''/tmp/d.run''"] h1 h2
  show ?thesis by simp
qed

text \<open>
  Claim C7.  After a \<open>yes\<close>, the tenth event is \<open>subprocess.run(['sudo', path],
  timeout=600)\<close>.  A return code of zero makes \<open>install_driver\<close> return \<open>True\<close>; any
  other return code makes it return \<open>False\<close> after printing that code; a
  \<open>TimeoutExpired\<close> makes it return \<open>False\<close> after printing that the installation
  timed out.  In all three cases the function returns: nothing is raised.
\<close>

theorem install_driver_outcomes:
  assumes "input_result env (now st + 4) install_prompt = Inr line"
    and "lower (strip line) = ''yes''"
  shows "(\<forall>result. run_result env (now st + 9) [''sudo'', p] = Inr result
            \<and> returncode result = 0 \<longrightarrow>
          fst (install_driver env p st) = Inr True)
    \<and> (\<forall>result. run_result env (now st + 9) [''sudo'', p] = Inr result
            \<and> returncode result \<noteq> 0 \<longrightarrow>
          fst (install_driver env p st) = Inr False
          \<and> last (trace (snd (install_driver env p st))) =
              Print (''Installation failed with exit code: '' @ str_int (returncode result)))
    \<and> (run_result env (now st + 9) [''sudo'', p] = Inl TimeoutExpired \<longrightarrow>
          fst (install_driver env p st) = Inr False
          \<and> last (trace (snd (install_driver env p st))) = Print ''Installation timed out'')
    \<and> take 10 (new_events st (snd (install_driver env p st)))
        = confirm_events p @ start_events p"
proof -
  have len: "length (confirm_events p) = 5" "length (start_events p) = 5"
    by (simp_all add: confirm_events_def start_events_def)
  show ?thesis
    unfolding install_driver_accept_cases [OF assms]
    by (simp add: len split: sum.splits)
qed

theorem install_driver_outcomes_witness:
  "lower (strip ''YES'') = ''yes''
   \<and> fst (install_driver
        (steady_env (\<lambda>a. Inr \<lparr>returncode = 3, stdout = []\<rparr>) (\<lambda>u. Inl URLError) (\<lambda>q. Inr ''YES''))
        ''/tmp/d.run'' st0) = Inr False
   \<and> last (trace (snd (install_driver
        (steady_env (\<lambda>a. Inr \<lparr>returncode = 3, stdout = []\<rparr>) (\<lambda>u. Inl URLError) (\<lambda>q. Inr ''YES''))
        ''/tmp/d.run'' st0))) = Print ''Installation failed with exit code: 3''"
proof -
  let ?env = "steady_env (\<lambda>a. Inr \<lparr>returncode = 3, stdout = []\<rparr>) (\<lambda>u. Inl URLError)
      (\<lambda>q. Inr ''YES'')"
  let ?p = "''/tmp/d.run''"
  have h1: "input_result ?env (now st0 + 4) install_prompt = Inr ''YES''"
    by (simp add: steady_env_def)
  have h2: "lower (strip ''YES'') = ''yes''"
    by code_simp
  have h3: "run_result ?env (now st0 + 9) [''sudo'', ?p] = Inr \<lparr>returncode = 3, stdout = []\<rparr>"
    by (simp add: steady_env_def)
  have h4: "str_int 3 = ''3''"
    by code_simp
  from install_driver_outcomes [OF h1 h2, of ?p] h2 h3 h4
  show ?thesis by simp
qed

subsection \<open>get\_latest\_driver\_version and its callers\<close>

lemma strip_decompose:
  "\<exists>w. dropWhile is_space s = strip s @ w \<and> (\<forall>c \<in> set w. is_space c)"
proof -
  let ?t = "dropWhile is_space s"
  have "?t = rev (takeWhile is_space (rev ?t) @ dropWhile is_space (rev ?t))"
    by (simp only: takeWhile_dropWhile_id rev_rev_ident)
  then have "?t = rev (dropWhile is_space (rev ?t)) @ rev (takeWhile is_space (rev ?t))"
    by (simp only: rev_append)
  then have "?t = strip s @ rev (takeWhile is_space (rev ?t))"
    by (simp only: strip_def)
  moreover have "\<forall>c \<in> set (rev (takeWhile is_space (rev ?t))). is_space c"
    by (auto dest: set_takeWhileD)
  ultimately show ?thesis by blast
qed

lemma strip_all_space:
  assumes "\<forall>c \<in> set s. is_space c"
  shows "strip s = []"
proof -
  from assms have "dropWhile is_space s = []" by simp
  then show ?thesis by (simp only: strip_def rev.simps dropWhile.simps)
qed

lemma takeWhile_before_spaces:
  assumes "\<forall>c \<in> set w. is_space c"
  shows "takeWhile (\<lambda>c. \<not> is_space c) (u @ w) = takeWhile (\<lambda>c. \<not> is_space c) u"
proof (cases "\<forall>c \<in> set u. \<not> is_space c")
  case True
  then have a: "takeWhile (\<lambda>c. \<not> is_space c) u = u" by simp
  have b: "takeWhile (\<lambda>c. \<not> is_space c) w = []" using assms by (cases w) auto
  have c: "takeWhile (\<lambda>c. \<not> is_space c) (u @ w) = u @ takeWhile (\<lambda>c. \<not> is_space c) w"
    using True by (intro takeWhile_append2) simp
  show ?thesis unfolding c b a by (simp only: append_Nil2)
next
  case False
  then show ?thesis by (auto simp: takeWhile_append1)
qed

lemma split_ws_strip:
  "split_ws (strip s) =
     (if \<forall>c \<in> set s. is_space c then []
      else first_token s # tl (split_ws (strip s)))"
proof (cases "\<forall>c \<in> set s. is_space c")
  case True
  then show ?thesis by (simp add: strip_all_space)
next
  case False
  let ?t = "dropWhile is_space s"
  from False have t: "?t \<noteq> []" by (simp add: dropWhile_eq_Nil_conv)
  then have hd_t: "\<not> is_space (hd ?t)" by (rule hd_dropWhile)
  obtain w where w: "?t = strip s @ w" "\<forall>c \<in> set w. is_space c"
    using strip_decompose by blast
  have u: "strip s \<noteq> []"
  proof
    assume "strip s = []"
    with w have "?t = w" by simp
    with t w(2) hd_t show False by (cases w) auto
  qed
  then obtain c cs where ccs: "strip s = c # cs" by (cases "strip s") auto
  with w(1) have "hd ?t = c" by simp
  with hd_t have c: "\<not> is_space c" by simp
  have "first_token s = takeWhile (\<lambda>c. \<not> is_space c) (strip s)"
    unfolding first_token_def w(1) using w(2) by (rule takeWhile_before_spaces)
  with c show ?thesis using False by (simp add: ccs)
qed

lemma first_part_strip:
  "(case split_ws (strip s) of [] \<Rightarrow> None | p # ps \<Rightarrow> Some p) =
     (if \<forall>c \<in> set s. is_space c then None else Some (first_token s))"
  by (subst split_ws_strip) simp

lemma get_latest_driver_version_ok:
  assumes "urlopen_result env (now st) NVIDIA_LINUX_LATEST_URL = Inr resp"
    and "decoded resp = Inr text"
  shows "get_latest_driver_version env st =
    (Inr (if \<forall>c \<in> set text. is_space c then None else Some (first_token text)),
     emits fetch_events st)"
proof -
  have "get_latest_driver_version env st =
      (Inr (case split_ws (strip text) of [] \<Rightarrow> None | p # ps \<Rightarrow> Some p), emits fetch_events st)"
    using assms
    by (simp add: get_latest_driver_version_def urlopen_emits fetch_events_def Let_def
        split: list.splits)
  then show ?thesis by (simp only: first_part_strip)
qed

lemma get_latest_driver_version_raises:
  assumes "urlopen_result env (now st) NVIDIA_LINUX_LATEST_URL = Inl e
      \<or> (\<exists>resp. urlopen_result env (now st) NVIDIA_LINUX_LATEST_URL = Inr resp
            \<and> decoded resp = Inl e)"
  shows "get_latest_driver_version env st =
    (if is_Exception e
     then (Inr None, emits (fetch_events @ [Print_exn ''Could not fetch latest driver version'' e]) st)
     else (Inl e, emits fetch_events st))"
  using assms
  by (auto simp: get_latest_driver_version_def urlopen_emits fetch_events_def fetch_failed_def
      print_emits)


lemma get_driver_version_eq:
  "get_driver_version env st =
     (case run_result env (now st) version_query of
        Inl e \<Rightarrow> if e = FileNotFoundError \<or> e = TimeoutExpired then Inr None else Inl e
      | Inr result \<Rightarrow>
          if returncode result = 0 then Inr (Some (strip (stdout result))) else Inr None,
      emits [Run version_query 5] st)"
  by (simp add: get_driver_version_def run_emits version_query_def split: sum.splits)

lemma get_driver_version_state [simp]:
  "snd (get_driver_version env st) = emits [Run version_query 5] st"
  by (simp add: get_driver_version_eq)

lemma install_fresh_driver_unknown_latest:
  assumes "fst (get_latest_driver_version env (fresh_fetch_state st)) = Inr None"
  shows "install_fresh_driver env st =
    (Inr False, report_unknown_latest (snd (get_latest_driver_version env (fresh_fetch_state st))))"
proof -
  obtain r st' where g: "get_latest_driver_version env (fresh_fetch_state st) = (r, st')"
    by (cases "get_latest_driver_version env (fresh_fetch_state st)")
  with assms have "r = Inr None" by simp
  with g show ?thesis
    by (simp add: install_fresh_driver_def Let_def print_emits fresh_fetch_state_def truthy_def)
qed

lemma check_for_updates_unknown_latest:
  assumes "fst (get_driver_version env st) = Inr cur" and "truthy cur"
    and "fst (get_latest_driver_version env (update_fetch_state st)) = Inr None"
  shows "check_for_updates env st =
    (Inr (), report_unknown_latest (snd (get_latest_driver_version env (update_fetch_state st))))"
proof -
  obtain st1 where d: "get_driver_version env st = (Inr cur, emits [Run version_query 5] st)"
    using assms(1) get_driver_version_state [of env st]
    by (cases "get_driver_version env st") simp
  obtain r st' where g: "get_latest_driver_version env (update_fetch_state st) = (r, st')"
    by (cases "get_latest_driver_version env (update_fetch_state st)")
  with assms have "r = Inr None" by simp
  with g d assms(2) show ?thesis
    by (simp add: check_for_updates_def Let_def print_emits update_fetch_state_def truthy_def)
qed

subsection \<open>Claim about get\_latest\_driver\_version\<close>

text \<open>
  Claim C6.  When the index is fetched and decoded, \<open>get_latest_driver_version\<close>
  returns its first white-space delimited token, whatever follows it, and \<open>None\<close>
  when there is no token (an empty body, or white space only).  When \<open>urlopen\<close> or
  the decoding raises an exception that is an instance of \<open>Exception\<close> (a network
  failure, a timeout, an HTTP error, bytes that are not UTF-8), it prints the failure
  and returns \<open>None\<close>: nothing is raised.  Both callers go on after a \<open>None\<close>:
  \<open>install_fresh_driver\<close> prints the manual guidance and returns \<open>False\<close>,
  \<open>check_for_updates\<close> prints it and returns.
\<close>

theorem get_latest_driver_version_result:
  "(\<forall>resp text. urlopen_result env (now st) NVIDIA_LINUX_LATEST_URL = Inr resp
        \<and> decoded resp = Inr text \<longrightarrow>
      get_latest_driver_version env st =
        (Inr (if \<forall>c \<in> set text. is_space c then None else Some (first_token text)),
         emits fetch_events st))
   \<and> (\<forall>e. is_Exception e
        \<and> (urlopen_result env (now st) NVIDIA_LINUX_LATEST_URL = Inl e
            \<or> (\<exists>resp. urlopen_result env (now st) NVIDIA_LINUX_LATEST_URL = Inr resp
                  \<and> decoded resp = Inl e)) \<longrightarrow>
      get_latest_driver_version env st =
        (Inr None,
         emits (fetch_events @ [Print_exn ''Could not fetch latest driver version'' e]) st))
   \<and> (fst (get_latest_driver_version env (fresh_fetch_state st)) = Inr None \<longrightarrow>
      install_fresh_driver env st =
        (Inr False,
         report_unknown_latest (snd (get_latest_driver_version env (fresh_fetch_state st)))))
   \<and> (\<forall>cur. fst (get_driver_version env st) = Inr cur \<and> truthy cur
        \<and> fst (get_latest_driver_version env (update_fetch_state st)) = Inr None \<longrightarrow>
      check_for_updates env st =
        (Inr (),
         report_unknown_latest (snd (get_latest_driver_version env (update_fetch_state st)))))"
proof (intro conjI allI impI)
  fix resp and t :: string
  assume "urlopen_result env (now st) NVIDIA_LINUX_LATEST_URL = Inr resp
      \<and> decoded resp = Inr t"
  then show "get_latest_driver_version env st =
      (Inr (if \<forall>c \<in> set t. is_space c then None else Some (first_token t)),
       emits fetch_events st)"
    by (simp add: get_latest_driver_version_ok)
next
  fix e
  assume a: "is_Exception e
      \<and> (urlopen_result env (now st) NVIDIA_LINUX_LATEST_URL = Inl e
          \<or> (\<exists>resp. urlopen_result env (now st) NVIDIA_LINUX_LATEST_URL = Inr resp
                \<and> decoded resp = Inl e))"
  then have "urlopen_result env (now st) NVIDIA_LINUX_LATEST_URL = Inl e
      \<or> (\<exists>resp. urlopen_result env (now st) NVIDIA_LINUX_LATEST_URL = Inr resp
            \<and> decoded resp = Inl e)"
    by simp
  from get_latest_driver_version_raises [OF this] a
  show "get_latest_driver_version env st =
      (Inr None, emits (fetch_events @ [Print_exn ''Could not fetch latest driver version'' e]) st)"
    by simp
next
  assume "fst (get_latest_driver_version env (fresh_fetch_state st)) = Inr None"
  then show "install_fresh_driver env st =
      (Inr False,
       report_unknown_latest (snd (get_latest_driver_version env (fresh_fetch_state st))))"
    by (rule install_fresh_driver_unknown_latest)
next
  fix cur
  assume "fst (get_driver_version env st) = Inr cur \<and> truthy cur
      \<and> fst (get_latest_driver_version env (update_fetch_state st)) = Inr None"
  then show "check_for_updates env st =
      (Inr (),
       report_unknown_latest (snd (get_latest_driver_version env (update_fetch_state st))))"
    by (simp add: check_for_updates_unknown_latest)
qed

theorem get_latest_driver_version_result_witness:
  "first_token '' 580.105.08 580.105.08/NVIDIA-Linux-x86_64-580.105.08.run'' = ''580.105.08''
   \<and> get_latest_driver_version
        (steady_env (\<lambda>a. Inl FileNotFoundError)
           (\<lambda>u. Inr (text_response
              '' 580.105.08 580.105.08/NVIDIA-Linux-x86_64-580.105.08.run''))
           (\<lambda>q. Inl EOFError)) st0 =
      (Inr (Some ''580.105.08''), emits fetch_events st0)
   \<and> get_latest_driver_version
        (steady_env (\<lambda>a. Inl FileNotFoundError) (\<lambda>u. Inl URLError) (\<lambda>q. Inl EOFError)) st0 =
      (Inr None,
       emits (fetch_events @ [Print_exn ''Could not fetch latest driver version'' URLError]) st0)"
proof -
  let ?text = "'' 580.105.08 580.105.08/NVIDIA-Linux-x86_64-580.105.08.run''"
  let ?env = "steady_env (\<lambda>a. Inl FileNotFoundError) (\<lambda>u. Inr (text_response ?text))
      (\<lambda>q. Inl EOFError)"
  let ?env2 = "steady_env (\<lambda>a. Inl FileNotFoundError) (\<lambda>u. Inl URLError) (\<lambda>q. Inl EOFError)"
  have h1: "urlopen_result ?env (now st0) NVIDIA_LINUX_LATEST_URL = Inr (text_response ?text)"
    by (simp add: steady_env_def)
  have h2: "decoded (text_response ?text) = Inr ?text"
    by (simp add: text_response_def)
  have h3: "first_token ?text = ''580.105.08''"
    by code_simp
  have h4: "\<not> (\<forall>c \<in> set ?text. is_space c)"
    by code_simp
  have h5: "urlopen_result ?env2 (now st0) NVIDIA_LINUX_LATEST_URL = Inl URLError"
    by (simp add: steady_env_def)
  have h6: "is_Exception URLError"
    by (simp add: is_Exception_def)
  from get_latest_driver_version_result [of ?env st0]
    get_latest_driver_version_result [of ?env2 st0] h1 h2 h3 h4 h5 h6
  show ?thesis by simp
qed

subsection \<open>Traces\<close>

lemma steps_iff: "steps P st st' \<longleftrightarrow> (\<exists>evs. trace st' = trace st @ evs \<and> list_all P evs)"
proof
  assume "steps P st st'"
  then have "take (now st) (trace st') = trace st" "list_all P (drop (now st) (trace st'))"
    by (simp_all add: steps_def new_events_def)
  moreover have "trace st' = take (now st) (trace st') @ drop (now st) (trace st')" by simp
  ultimately show "\<exists>evs. trace st' = trace st @ evs \<and> list_all P evs" by metis
next
  assume "\<exists>evs. trace st' = trace st @ evs \<and> list_all P evs"
  then show "steps P st st'" by (auto simp: steps_def new_events_def now_def)
qed

lemma steps_refl [simp]: "steps P st st"
  by (simp add: steps_iff)

lemma steps_trans: "steps P a b \<Longrightarrow> steps P b c \<Longrightarrow> steps P a c"
  by (auto simp: steps_iff)

lemma steps_emits [simp]: "steps P st (emits evs st) \<longleftrightarrow> list_all P evs"
  by (simp add: steps_iff)

lemma steps_emits_after: "steps P a b \<Longrightarrow> list_all P evs \<Longrightarrow> steps P a (emits evs b)"
  by (auto simp: steps_iff)

lemma steps_mono: "steps P a b \<Longrightarrow> (\<And>ev. P ev \<Longrightarrow> Q ev) \<Longrightarrow> steps Q a b"
  by (auto simp: steps_iff list_all_iff)

lemma steps_new_events: "steps P a b \<Longrightarrow> trace b = trace a @ new_events a b"
  by (auto simp: steps_iff new_events_def now_def)

lemma new_events_trans:
  "steps P a b \<Longrightarrow> steps Q b c \<Longrightarrow> new_events a c = new_events a b @ new_events b c"
  by (auto simp: steps_iff new_events_def now_def)


subsection \<open>File operations\<close>

lemma silent_simps [simp]:
  "silent (Print s)" "silent (Print_exn s e)" "silent (Print_size n)"
  "silent (Print_progress d n)" "silent (Urlopen u t)" "silent (Mkdtemp p)" "silent (Rmtree p)"
  "silent (Open_wb p)" "silent (Write p c)" "silent (Stat p)" "silent (Chmod p m)"
  "\<not> silent (Run a t)" "\<not> silent (Input q)"
  by (simp_all add: silent_def)

lemma open_wb_eq:
  "open_wb env p st =
     (case file_fault env (now st) p of
        Some e \<Rightarrow> (Inl e, emits [Open_wb p] st)
      | None \<Rightarrow>
          (Inr (), emits [Open_wb p]
             (st\<lparr>files := (files st)(p \<mapsto>
                \<lparr>content = [],
                 st_mode = (case files st p of None \<Rightarrow> 438 AND NOT (umask env)
                            | Some f \<Rightarrow> st_mode f)\<rparr>)\<rparr>)))"
  by (simp add: open_wb_def emit_emits Let_def split: option.splits)

lemma write_file_eq:
  "write_file env p c st =
     (case file_fault env (now st) p of
        Some e \<Rightarrow> (Inl e, emits [Write p c] st)
      | None \<Rightarrow>
          (case files st p of
             None \<Rightarrow> (Inl OSError, emits [Write p c] st)
           | Some f \<Rightarrow>
               (Inr (), emits [Write p c]
                  (st\<lparr>files := (files st)(p \<mapsto> f\<lparr>content := content f @ c\<rparr>)\<rparr>))))"
  by (simp add: write_file_def emit_emits split: option.splits)

lemma os_stat_eq:
  "os_stat env p st =
     (case file_fault env (now st) p of
        Some e \<Rightarrow> Inl e
      | None \<Rightarrow> (case files st p of None \<Rightarrow> Inl FileNotFoundError | Some f \<Rightarrow> Inr (st_mode f)),
      emits [Stat p] st)"
  by (simp add: os_stat_def emit_emits split: option.splits)

lemma os_chmod_eq:
  "os_chmod env p m st =
     (case file_fault env (now st) p of
        Some e \<Rightarrow> (Inl e, emits [Chmod p m] st)
      | None \<Rightarrow>
          (case files st p of
             None \<Rightarrow> (Inl FileNotFoundError, emits [Chmod p m] st)
           | Some f \<Rightarrow>
               (Inr (), emits [Chmod p m] (st\<lparr>files := (files st)(p \<mapsto> f\<lparr>st_mode := m\<rparr>)\<rparr>))))"
  by (simp add: os_chmod_def emit_emits split: option.splits)

lemma emits_files_update [simp]:
  "trace (emits evs (st\<lparr>files := fs\<rparr>)) = trace st @ evs"
  "files (emits evs (st\<lparr>files := fs\<rparr>)) = fs"
  "dirs (emits evs (st\<lparr>files := fs\<rparr>)) = dirs st"
  "now (emits evs (st\<lparr>files := fs\<rparr>)) = now st + length evs"
  by (simp_all add: emits_def now_def)

lemma steps_emits_files [simp]:
  "steps P st (emits evs (st\<lparr>files := fs\<rparr>)) \<longleftrightarrow> list_all P evs"
  by (simp add: steps_iff)

lemma file_op_steps:
  "steps silent st (snd (open_wb env p st))"
  "steps silent st (snd (write_file env p c st))"
  "steps silent st (snd (os_stat env p st))"
  "steps silent st (snd (os_chmod env p m st))"
  by (simp_all add: open_wb_eq write_file_eq os_stat_eq os_chmod_eq split: option.splits)

lemma file_op_dirs:
  "dirs (snd (open_wb env p st)) = dirs st"
  "dirs (snd (write_file env p c st)) = dirs st"
  "dirs (snd (os_stat env p st)) = dirs st"
  "dirs (snd (os_chmod env p m st)) = dirs st"
  by (simp_all add: open_wb_eq write_file_eq os_stat_eq os_chmod_eq split: option.splits)

subsection \<open>The read loop\<close>

lemma chunk_size_pos [simp]: "chunk_size \<noteq> 0" "0 < chunk_size"
  by (simp_all add: chunk_size_def)

lemma take_chunk_Nil: "take chunk_size bs = [] \<longleftrightarrow> bs = []"
  by simp

lemma chunks_Nil [simp]: "chunks [] = []"
  by (simp add: chunks.simps)

lemma chunks_step: "bs \<noteq> [] \<Longrightarrow> chunks bs = take chunk_size bs # chunks (drop chunk_size bs)"
  by (subst chunks.simps) simp

lemma concat_chunks: "concat (chunks bs) = bs"
  by (induction bs rule: chunks.induct) (subst chunks.simps, simp)

lemma chunks_sizes: "c \<in> set (chunks bs) \<Longrightarrow> c \<noteq> [] \<and> length c \<le> chunk_size"
proof (induction bs rule: chunks.induct)
  case (1 bs)
  show ?case
  proof (cases "bs = []")
    case True
    with "1.prems" show ?thesis by simp
  next
    case False
    with "1.prems" have "c = take chunk_size bs \<or> c \<in> set (chunks (drop chunk_size bs))"
      by (simp add: chunks_step)
    then show ?thesis using False "1.IH" by auto
  qed
qed

lemma chunks_full: "c \<in> set (butlast (chunks bs)) \<Longrightarrow> length c = chunk_size"
proof (induction bs rule: chunks.induct)
  case (1 bs)
  show ?case
  proof (cases "bs = []")
    case True
    with "1.prems" show ?thesis by simp
  next
    case False
    show ?thesis
    proof (cases "chunks (drop chunk_size bs) = []")
      case True
      with "1.prems" False show ?thesis by (simp add: chunks_step)
    next
      case rest: False
      then have "drop chunk_size bs \<noteq> []" by auto
      then have long: "chunk_size < length bs" by simp
      from "1.prems" False rest
      have "c = take chunk_size bs \<or> c \<in> set (butlast (chunks (drop chunk_size bs)))"
        by (simp add: chunks_step)
      then show ?thesis using False "1.IH" long by auto
    qed
  qed
qed

lemma read_loop_Nil:
  "read_loop env resp dest fs [] k d st =
     (case read_fault resp k of Some e \<Rightarrow> (Inl e, st) | None \<Rightarrow> (Inr (), st))"
  by (subst read_loop.simps) (simp split: option.splits)

lemma read_loop_fault:
  "read_fault resp k = Some e \<Longrightarrow> read_loop env resp dest fs remaining k d st = (Inl e, st)"
  by (subst read_loop.simps) simp

lemma read_loop_step:
  assumes "read_fault resp k = None" and "remaining \<noteq> []"
  shows "read_loop env resp dest fs remaining k d st =
    (case write_file env dest (take chunk_size remaining) st of
       (Inl e, st1) \<Rightarrow> (Inl e, st1)
     | (Inr u, st1) \<Rightarrow>
         read_loop env resp dest fs (drop chunk_size remaining) (Suc k)
           (d + int (length (take chunk_size remaining)))
           (emits (progress_events fs (d + int (length (take chunk_size remaining)))) st1))"
proof -
  have e: "(case fs of None \<Rightarrow> st1
            | Some n \<Rightarrow> if n \<noteq> 0 then emit (Print_progress x n) st1 else st1)
      = emits (progress_events fs x) st1" for st1 x
    by (simp add: progress_events_def emit_emits emits_def split: option.splits)
  show ?thesis
    using assms by (subst read_loop.simps) (simp add: e split: prod.splits sum.splits)
qed

lemma emits_Nil [simp]: "emits [] st = st"
  by (simp add: emits_def)

lemma progress_silent [simp]: "list_all silent (progress_events fs x)"
  by (simp add: progress_events_def split: option.splits)

lemma read_loop_steps:
  "steps silent st (snd (read_loop env resp dest fs remaining k d st))"
proof (induction env resp dest fs remaining k d st rule: read_loop.induct)
  case (1 env resp dest fs remaining k d st)
  show ?case
  proof (cases "read_fault resp k")
    case (Some e)
    then show ?thesis by (simp add: read_loop_fault)
  next
    case None
    show ?thesis
    proof (cases "remaining = []")
      case True
      with None show ?thesis by (simp add: read_loop_Nil)
    next
      case False
      obtain x y where w: "write_file env dest (take chunk_size remaining) st = (x, y)"
        by (cases "write_file env dest (take chunk_size remaining) st")
      have wy: "steps silent st y"
        using file_op_steps(2) [of st env dest "take chunk_size remaining"] w by simp
      show ?thesis
      proof (cases x)
        case (Inl e)
        with None False w wy show ?thesis by (simp add: read_loop_step)
      next
        case (Inr b)
        let ?d = "d + int (length (take chunk_size remaining))"
        let ?y = "emits (progress_events fs ?d) y"
        have y': "(case fs of None \<Rightarrow> y
            | Some n \<Rightarrow> if n \<noteq> 0 then emit (Print_progress ?d n) y else y) = ?y"
          by (simp add: progress_events_def emit_emits split: option.splits)
        from False have "take chunk_size remaining \<noteq> []" by simp
        from "1.IH" [OF None this w [symmetric] Inr]
        have "steps silent ?y
            (snd (read_loop env resp dest fs (drop chunk_size remaining) (Suc k) ?d ?y))"
          by (simp only: y')
        moreover have "steps silent st ?y"
          using wy by (rule steps_emits_after) simp
        ultimately have "steps silent st
            (snd (read_loop env resp dest fs (drop chunk_size remaining) (Suc k) ?d ?y))"
          by (rule steps_trans [rotated])
        with None False w Inr show ?thesis by (simp add: read_loop_step)
      qed
    qed
  qed
qed


lemma write_file_ok:
  assumes "write_file env p c st = (Inr u, st1)"
  shows "\<exists>f. files st p = Some f
      \<and> st1 = emits [Write p c] (st\<lparr>files := (files st)(p \<mapsto> f\<lparr>content := content f @ c\<rparr>)\<rparr>)"
  using assms by (auto simp: write_file_eq split: option.splits)

lemma read_loop_success:
  "read_loop env resp dest fs remaining k d st = (Inr u, st') \<Longrightarrow> files st dest = Some f \<Longrightarrow>
     files st' = (files st)(dest \<mapsto> f\<lparr>content := content f @ remaining\<rparr>)
     \<and> dirs st' = dirs st
     \<and> trace st' = trace st @ chunk_events dest fs d (chunks remaining)"
proof (induction env resp dest fs remaining k d st arbitrary: f rule: read_loop.induct)
  case (1 env resp dest fs remaining k d st)
  show ?case
  proof (cases "read_fault resp k")
    case (Some e)
    with "1.prems" show ?thesis by (simp add: read_loop_fault)
  next
    case None
    show ?thesis
    proof (cases "remaining = []")
      case True
      with None "1.prems" show ?thesis by (auto simp: read_loop_Nil)
    next
      case False
      let ?c = "take chunk_size remaining"
      let ?d = "d + int (length ?c)"
      obtain x y where w: "write_file env dest ?c st = (x, y)"
        by (cases "write_file env dest ?c st")
      show ?thesis
      proof (cases x)
        case (Inl e)
        with None False w "1.prems" show ?thesis by (simp add: read_loop_step)
      next
        case (Inr b)
        let ?f = "f\<lparr>content := content f @ ?c\<rparr>"
        let ?y = "emits (progress_events fs ?d) y"
        from w Inr "1.prems"(2) have y: "y = emits [Write dest ?c]
            (st\<lparr>files := (files st)(dest \<mapsto> ?f)\<rparr>)"
          using write_file_ok [of env dest ?c st b y] by simp
        have y': "(case fs of None \<Rightarrow> y
            | Some n \<Rightarrow> if n \<noteq> 0 then emit (Print_progress ?d n) y else y) = ?y"
          by (simp add: progress_events_def emit_emits split: option.splits)
        from False have ne: "?c \<noteq> []" by simp
        have run: "read_loop env resp dest fs (drop chunk_size remaining) (Suc k) ?d ?y = (Inr u, st')"
          using "1.prems"(1) None False w Inr by (simp add: read_loop_step)
        have fy: "files ?y dest = Some ?f" by (simp add: y)
        from "1.IH" [OF None ne w [symmetric] Inr, of ?f] run fy
        have ih: "files st' = (files ?y)(dest \<mapsto> ?f\<lparr>content := content ?f @ drop chunk_size remaining\<rparr>)
            \<and> dirs st' = dirs ?y
            \<and> trace st' = trace ?y @ chunk_events dest fs ?d (chunks (drop chunk_size remaining))"
          by (simp only: y')
        have f': "?f\<lparr>content := content ?f @ drop chunk_size remaining\<rparr>
            = f\<lparr>content := content f @ remaining\<rparr>"
          by simp
        from ih show ?thesis
          by (simp add: y f' chunks_step [OF False])
      qed
    qed
  qed
qed



subsection \<open>Sequencing\<close>

lemma then_do_simps [simp]:
  "then_do (Inl e, s) k = (Inl e, s)"
  "then_do (Inr x, s) k = k x s"
  by (simp_all add: then_do_def)

lemma steps_then_do:
  assumes "steps P a (snd m)" and "\<And>x s. m = (Inr x, s) \<Longrightarrow> steps P s (snd (k x s))"
  shows "steps P a (snd (then_do m k))"
proof (cases m)
  case (Pair r s)
  show ?thesis
  proof (cases r)
    case (Inl e)
    with Pair assms(1) show ?thesis by simp
  next
    case (Inr x)
    with Pair assms(1) assms(2) [of x s] show ?thesis by (auto intro: steps_trans)
  qed
qed

lemma then_do_Inr:
  assumes "then_do m k = (Inr r, s')"
  obtains x s where "m = (Inr x, s)" and "k x s = (Inr r, s')"
  using assms by (cases m; cases "fst m") (auto simp: then_do_def)


subsection \<open>download\_driver\<close>

lemma plus3: "n + 3 = Suc (Suc (Suc n))"
  by simp

lemma read_file_size_eq:
  "read_file_size resp st =
     (case header_size resp of
        Inl e \<Rightarrow> (Inl e, st)
      | Inr fs \<Rightarrow> (Inr fs, emits (size_events fs) st))"
  by (simp add: read_file_size_def header_size_def size_events_def emit_emits split: sum.splits)

lemma download_body_chain:
  "download_body env url dest st =
     then_do (urlopen_result env (now st + 3) url, emits (request_events url) st) (\<lambda>resp s.
     then_do (read_file_size resp s) (\<lambda>fs s.
     then_do (open_wb env dest s) (\<lambda>u s.
     then_do (read_loop env resp dest fs (body resp) 0 0 s) (\<lambda>u s.
     then_do (os_stat env dest (emits [Print [], Print (''Downloaded to: '' @ dest)] s)) (\<lambda>m s.
     then_do (os_chmod env dest (executable m) s) (\<lambda>u s. (Inr True, s)))))))"
  by (simp add: download_body_def then_do_def Let_def io_emits plus3 request_events_def
      executable_def split: sum.splits prod.splits)

lemma steps_emits_more [simp]: "steps P (emits a st) (emits (a @ b) st) \<longleftrightarrow> list_all P b"
  by (simp add: steps_iff)

lemma request_silent [simp]:
  "list_all silent (request_events url)" "list_all silent (size_events fs)"
  by (simp_all add: request_events_def size_events_def split: option.splits)

lemma download_body_steps: "steps silent st (snd (download_body env url dest st))"
  unfolding download_body_chain
  by (intro steps_then_do)
    (auto simp: read_file_size_eq split: sum.splits
      intro: file_op_steps read_loop_steps steps_trans [OF _ file_op_steps(3)])

lemma download_driver_steps: "steps silent st (snd (download_driver env url dest st))"
proof -
  obtain r s where b: "download_body env url dest st = (r, s)"
    by (cases "download_body env url dest st")
  with download_body_steps [of st env url dest] have "steps silent st s" by simp
  with b show ?thesis
    by (auto simp: download_driver_def print_emits split: sum.splits intro: steps_emits_after)
qed

lemma download_driver_raises:
  "fst (download_driver env url dest st) = Inl e \<Longrightarrow> \<not> is_Exception e"
  by (auto simp: download_driver_def split: sum.splits prod.splits if_splits)

subsection \<open>A download that goes through\<close>

lemma open_wb_ok:
  assumes "open_wb env p st = (Inr u, s1)"
  shows "s1 = emits [Open_wb p]
      (st\<lparr>files := (files st)(p \<mapsto> \<lparr>content = [], st_mode = opened_mode env st p\<rparr>)\<rparr>)"
  using assms by (auto simp: open_wb_eq opened_mode_def split: option.splits)

lemma os_stat_ok:
  assumes "os_stat env p st = (Inr m, s1)"
  shows "\<exists>f. files st p = Some f \<and> m = st_mode f \<and> s1 = emits [Stat p] st"
  using assms by (auto simp: os_stat_eq split: option.splits)

lemma os_chmod_ok:
  assumes "os_chmod env p m st = (Inr u, s1)"
  shows "\<exists>f. files st p = Some f
      \<and> s1 = emits [Chmod p m] (st\<lparr>files := (files st)(p \<mapsto> f\<lparr>st_mode := m\<rparr>)\<rparr>)"
  using assms by (auto simp: os_chmod_eq split: option.splits)

lemma download_body_stages:
  assumes "download_body env url dest st = (Inr ok, st')"
  shows "\<exists>resp fs s1 s2 m s3.
      urlopen_result env (now st + 3) url = Inr resp \<and> header_size resp = Inr fs
      \<and> open_wb env dest (emits (request_events url @ size_events fs) st) = (Inr (), s1)
      \<and> read_loop env resp dest fs (body resp) 0 0 s1 = (Inr (), s2)
      \<and> os_stat env dest (emits [Print [], Print (''Downloaded to: '' @ dest)] s2) = (Inr m, s3)
      \<and> os_chmod env dest (executable m) s3 = (Inr (), st') \<and> ok"
  using assms unfolding download_body_chain
  by (auto elim!: then_do_Inr simp: read_file_size_eq split: sum.splits)

lemma download_body_success:
  assumes "download_body env url dest st = (Inr ok, st')"
  shows "\<exists>resp fs. urlopen_result env (now st + 3) url = Inr resp \<and> header_size resp = Inr fs
      \<and> ok
      \<and> files st' = (files st)(dest \<mapsto>
            \<lparr>content = body resp, st_mode = executable (opened_mode env st dest)\<rparr>)
      \<and> dirs st' = dirs st
      \<and> trace st' = trace st
            @ download_events url dest fs (body resp) (executable (opened_mode env st dest))"
proof -
  let ?m0 = "opened_mode env st dest"
  from download_body_stages [OF assms] obtain resp fs s1 s2 m s3 where
    u: "urlopen_result env (now st + 3) url = Inr resp" and h: "header_size resp = Inr fs"
    and o: "open_wb env dest (emits (request_events url @ size_events fs) st) = (Inr (), s1)"
    and r: "read_loop env resp dest fs (body resp) 0 0 s1 = (Inr (), s2)"
    and s: "os_stat env dest (emits [Print [], Print (''Downloaded to: '' @ dest)] s2) = (Inr m, s3)"
    and c: "os_chmod env dest (executable m) s3 = (Inr (), st')" and ok: ok
    by blast
  let ?s0 = "emits (request_events url @ size_events fs) st"
  from open_wb_ok [OF o] have s1: "s1 = emits [Open_wb dest]
      (?s0\<lparr>files := (files ?s0)(dest \<mapsto> \<lparr>content = [], st_mode = opened_mode env ?s0 dest\<rparr>)\<rparr>)" .
  have m0: "opened_mode env ?s0 dest = ?m0" by (simp add: opened_mode_def)
  have f1: "files s1 dest = Some \<lparr>content = [], st_mode = ?m0\<rparr>"
    by (simp add: s1 m0)
  from read_loop_success [OF r f1]
  have f2: "files s2 = (files s1)(dest \<mapsto> \<lparr>content = body resp, st_mode = ?m0\<rparr>)"
    and d2: "dirs s2 = dirs s1"
    and t2: "trace s2 = trace s1 @ chunk_events dest fs 0 (chunks (body resp))"
    by simp_all
  let ?s2' = "emits [Print [], Print (''Downloaded to: '' @ dest)] s2"
  from os_stat_ok [OF s] f2 have m: "m = ?m0" and s3: "s3 = emits [Stat dest] ?s2'"
    by auto
  from os_chmod_ok [OF c] obtain f where
    f: "files s3 dest = Some f"
    and st': "st' = emits [Chmod dest (executable m)]
        (s3\<lparr>files := (files s3)(dest \<mapsto> f\<lparr>st_mode := executable m\<rparr>)\<rparr>)"
    by blast
  from f have f_eq: "f = \<lparr>content = body resp, st_mode = ?m0\<rparr>"
    by (simp add: s3 f2)
  have files: "files st' = (files st)(dest \<mapsto> \<lparr>content = body resp, st_mode = executable ?m0\<rparr>)"
    by (simp add: st' s3 f2 s1 f_eq m)
  have dirs: "dirs st' = dirs st"
    by (simp add: st' s3 d2 s1)
  have trace: "trace st' = trace st @ download_events url dest fs (body resp) (executable ?m0)"
    by (simp add: st' s3 t2 s1 m download_events_def)
  from u h ok files dirs trace show ?thesis by blast
qed


lemma read_loop_no_fault:
  "\<forall>j. read_fault resp j = None \<Longrightarrow> \<forall>t. file_fault env t dest = None \<Longrightarrow>
     files st dest = Some f \<Longrightarrow>
     \<exists>st'. read_loop env resp dest fs remaining k d st = (Inr (), st')"
proof (induction env resp dest fs remaining k d st arbitrary: f rule: read_loop.induct)
  case (1 env resp dest fs remaining k d st)
  from "1.prems"(1) have None: "read_fault resp k = None" by simp
  show ?case
  proof (cases "remaining = []")
    case True
    with None show ?thesis by (simp add: read_loop_Nil)
  next
    case False
    let ?c = "take chunk_size remaining"
    let ?d = "d + int (length ?c)"
    let ?f = "f\<lparr>content := content f @ ?c\<rparr>"
    let ?y = "emits [Write dest ?c] (st\<lparr>files := (files st)(dest \<mapsto> ?f)\<rparr>)"
    let ?y' = "emits (progress_events fs ?d) ?y"
    have w: "write_file env dest ?c st = (Inr (), ?y)"
      using "1.prems"(2,3) by (simp add: write_file_eq)
    have y': "(case fs of None \<Rightarrow> ?y
        | Some n \<Rightarrow> if n \<noteq> 0 then emit (Print_progress ?d n) ?y else ?y) = ?y'"
      by (simp add: progress_events_def emit_emits split: option.splits)
    from False have ne: "?c \<noteq> []" by simp
    have fy: "files ?y' dest = Some ?f" by simp
    from "1.IH" [OF None ne w [symmetric] refl "1.prems"(1,2), of ?f] fy
    obtain st' where "read_loop env resp dest fs (drop chunk_size remaining) (Suc k) ?d ?y'
        = (Inr (), st')"
      by (auto simp only: y')
    with None False w show ?thesis by (simp add: read_loop_step)
  qed
qed

lemma download_body_no_fault:
  assumes "urlopen_result env (now st + 3) url = Inr resp" and "header_size resp = Inr fs"
    and "\<forall>t. file_fault env t dest = None" and "\<forall>j. read_fault resp j = None"
  shows "fst (download_body env url dest st) = Inr True"
proof -
  let ?s0 = "emits (request_events url @ size_events fs) st"
  let ?f = "\<lparr>content = [], st_mode = opened_mode env ?s0 dest\<rparr>"
  let ?s1 = "emits [Open_wb dest] (?s0\<lparr>files := (files ?s0)(dest \<mapsto> ?f)\<rparr>)"
  have o: "open_wb env dest ?s0 = (Inr (), ?s1)"
    using assms(3) by (simp add: open_wb_eq opened_mode_def)
  have f1: "files ?s1 dest = Some ?f" by simp
  from read_loop_no_fault [OF assms(4,3) f1] obtain s2 where
    r: "read_loop env resp dest fs (body resp) 0 0 ?s1 = (Inr (), s2)"
    by blast
  from read_loop_success [OF r f1]
  have f2: "files s2 dest = Some (?f\<lparr>content := content ?f @ body resp\<rparr>)"
    by simp
  show ?thesis
    unfolding download_body_chain
    using assms(1-3) o r f2
    by (simp add: read_file_size_eq os_stat_eq os_chmod_eq)
qed

lemma download_driver_True:
  "fst (download_driver env url dest st) = Inr True
     \<longleftrightarrow> fst (download_body env url dest st) = Inr True"
  by (cases "download_body env url dest st"; cases "fst (download_body env url dest st)")
    (auto simp: download_driver_def)

lemma download_driver_success:
  assumes "download_driver env url dest st = (Inr True, st')"
  shows "download_body env url dest st = (Inr True, st')"
  using assms
  by (cases "download_body env url dest st"; cases "fst (download_body env url dest st)")
    (auto simp: download_driver_def split: if_splits)

lemma executable_bits:
  "executable m AND S_IXUSR = S_IXUSR"
  "executable m AND S_IXGRP = S_IXGRP"
  "executable m AND S_IXOTH = S_IXOTH"
  by (simp_all add: executable_def bit_eq_iff bit_simps) blast+

lemma header_size_digits:
  assumes "content_length resp = Some h" and "py_int h = Inr n"
  shows "header_size resp = Inr (Some n)"
proof -
  have "h \<noteq> []" using assms(2) by (auto simp: py_int_def int_strip_def)
  with assms show ?thesis by (simp add: header_size_def truthy_def)
qed


subsection \<open>Claim about download\_driver\<close>

text \<open>
  Claim C5.  Let the response have a body of \<open>n\<close> bytes and a \<open>Content-Length\<close> header
  that \<open>int\<close> reads as \<open>n\<close>.  Whenever \<open>download_driver\<close> returns \<open>True\<close>, the
  destination file holds exactly the bytes of the body, no other file has changed,
  and the events are those of a complete download: the body is written in its chunks
  of 8192 bytes, in order (every chunk but the last has 8192 bytes, none is empty,
  and together they are the body), each \<open>write\<close> is followed by the progress line with
  the count of bytes so far when \<open>n\<close> is not zero, and at the end the mode of the file
  is set to its mode with the execute bits of owner, group and others added.
  \<open>download_driver\<close> returns \<open>True\<close> exactly when the body of its \<open>try\<close> statement
  runs to its end, which it does when no read and no file operation fails.
\<close>

theorem download_driver_complete:
  assumes "urlopen_result env (now st + 3) url = Inr resp"
    and "content_length resp = Some h"
    and "py_int h = Inr (int (length (body resp)))"
    and "n = int (length (body resp))"
    and "m = executable (opened_mode env st dest)"
  shows "(\<forall>st'. download_driver env url dest st = (Inr True, st') \<longrightarrow>
            files st' = (files st)(dest \<mapsto> \<lparr>content = body resp, st_mode = m\<rparr>)
          \<and> trace st' = trace st @ download_events url dest (Some n) (body resp) m)
    \<and> m AND S_IXUSR = S_IXUSR \<and> m AND S_IXGRP = S_IXGRP \<and> m AND S_IXOTH = S_IXOTH
    \<and> concat (chunks (body resp)) = body resp
    \<and> (\<forall>c \<in> set (chunks (body resp)). c \<noteq> [] \<and> length c \<le> 8192)
    \<and> (\<forall>c \<in> set (butlast (chunks (body resp))). length c = 8192)
    \<and> (n \<noteq> 0 \<longrightarrow>
          (\<forall>d c cs. chunk_events dest (Some n) d (c # cs) =
             Write dest c # Print_progress (d + int (length c)) n
               # chunk_events dest (Some n) (d + int (length c)) cs))
    \<and> (fst (download_driver env url dest st) = Inr True
          \<longleftrightarrow> fst (download_body env url dest st) = Inr True)
    \<and> ((\<forall>t. file_fault env t dest = None) \<and> (\<forall>j. read_fault resp j = None) \<longrightarrow>
          fst (download_driver env url dest st) = Inr True)"
proof -
  have hs: "header_size resp = Inr (Some n)"
    using assms(2,3) by (simp add: header_size_digits assms(4))
  have a: "files st' = (files st)(dest \<mapsto> \<lparr>content = body resp, st_mode = m\<rparr>)
      \<and> trace st' = trace st @ download_events url dest (Some n) (body resp) m"
    if "download_driver env url dest st = (Inr True, st')" for st'
  proof -
    from that have "download_body env url dest st = (Inr True, st')"
      by (rule download_driver_success)
    from download_body_success [OF this] assms(1) hs show ?thesis
      by (auto simp: assms(5))
  qed
  have b: "m AND S_IXUSR = S_IXUSR \<and> m AND S_IXGRP = S_IXGRP \<and> m AND S_IXOTH = S_IXOTH"
    by (simp add: assms(5) executable_bits)
  have c: "concat (chunks (body resp)) = body resp"
    by (rule concat_chunks)
  have d: "\<forall>c \<in> set (chunks (body resp)). c \<noteq> [] \<and> length c \<le> 8192"
    using chunks_sizes [of _ "body resp"] by (simp add: chunk_size_def)
  have e: "\<forall>c \<in> set (butlast (chunks (body resp))). length c = 8192"
    using chunks_full [of _ "body resp"] by (simp add: chunk_size_def)
  have f: "\<forall>d c cs. chunk_events dest (Some n) d (c # cs) =
      Write dest c # Print_progress (d + int (length c)) n
        # chunk_events dest (Some n) (d + int (length c)) cs"
    if "n \<noteq> 0"
    using that by (simp add: progress_events_def)
  have g: "fst (download_driver env url dest st) = Inr True
      \<longleftrightarrow> fst (download_body env url dest st) = Inr True"
    by (rule download_driver_True)
  have h: "fst (download_driver env url dest st) = Inr True"
    if "(\<forall>t. file_fault env t dest = None) \<and> (\<forall>j. read_fault resp j = None)"
    using that download_body_no_fault [OF assms(1) hs, of dest] by (simp add: g)
  from a b c d e f g h show ?thesis by blast
qed

theorem download_driver_complete_witness:
  "py_int ''3'' = Inr (int (length [1, 2, 3 :: 8 word]))
   \<and> download_driver
        (steady_env (\<lambda>a. Inl FileNotFoundError) (\<lambda>u. Inr (bytes_response (Some ''3'') [1, 2, 3]))
           (\<lambda>q. Inl EOFError))
        ''https://example.org/d.run'' ''/tmp/d.run'' st0 =
      (Inr True,
       emits (download_events ''https://example.org/d.run'' ''/tmp/d.run'' (Some 3) [1, 2, 3] 493)
         (st0\<lparr>files := (files st0)(''/tmp/d.run'' \<mapsto> \<lparr>content = [1, 2, 3], st_mode = 493\<rparr>)\<rparr>))
   \<and> chunk_events ''/tmp/d.run'' (Some 3) 0 (chunks [1, 2, 3]) =
      [Write ''/tmp/d.run'' [1, 2, 3], Print_progress 3 3]"
proof -
  let ?resp = "bytes_response (Some ''3'') [1, 2, 3]"
  let ?env = "steady_env (\<lambda>a. Inl FileNotFoundError) (\<lambda>u. Inr ?resp) (\<lambda>q. Inl EOFError)"
  let ?url = "''https://example.org/d.run''"
  let ?dest = "''/tmp/d.run''"
  let ?r = "download_driver ?env ?url ?dest st0"
  have h1: "urlopen_result ?env (now st0 + 3) ?url = Inr ?resp"
    by (simp add: steady_env_def)
  have h2: "content_length ?resp = Some ''3''" and b: "body ?resp = [1, 2, 3]"
    by (simp_all add: bytes_response_def)
  have h3: "py_int ''3'' = Inr (int (length (body ?resp)))"
    unfolding b by code_simp
  have nf: "(\<forall>t. file_fault ?env t ?dest = None) \<and> (\<forall>j. read_fault ?resp j = None)"
    by (simp add: steady_env_def bytes_response_def)
  have m: "executable (opened_mode ?env st0 ?dest) = 493"
    by (simp add: executable_def opened_mode_def st0_def steady_env_def S_IXUSR_def S_IXGRP_def
        S_IXOTH_def)
  note complete = download_driver_complete [OF h1 h2 h3 refl refl, of ?dest]
  from complete nf have t: "fst ?r = Inr True" by blast
  then have r: "?r = (Inr True, snd ?r)" by (simp add: prod_eq_iff)
  from complete r have
    "files (snd ?r) = (files st0)(?dest \<mapsto>
        \<lparr>content = body ?resp, st_mode = executable (opened_mode ?env st0 ?dest)\<rparr>)"
    and "trace (snd ?r) = trace st0 @ download_events ?url ?dest (Some (int (length (body ?resp))))
        (body ?resp) (executable (opened_mode ?env st0 ?dest))"
    by blast+
  then have f: "files (snd ?r) = (files st0)(?dest \<mapsto> \<lparr>content = [1, 2, 3], st_mode = 493\<rparr>)"
    and tr: "trace (snd ?r) = trace st0 @ download_events ?url ?dest (Some 3) [1, 2, 3] 493"
    by (simp_all add: b m)
  have dd: "dirs (snd ?r) = dirs st0"
    using download_body_success [OF download_driver_success [OF r]] by blast
  have s: "snd ?r = emits (download_events ?url ?dest (Some 3) [1, 2, 3] 493)
      (st0\<lparr>files := (files st0)(?dest \<mapsto> \<lparr>content = [1, 2, 3], st_mode = 493\<rparr>)\<rparr>)"
    by (rule state.equality) (simp_all add: f tr dd)
  have ce: "chunk_events ?dest (Some 3) 0 (chunks [1, 2, 3 :: 8 word]) =
      [Write ?dest [1, 2, 3], Print_progress 3 3]"
    by (simp add: chunks.simps chunk_size_def progress_events_def)
  have p: "py_int ''3'' = Inr (int (length [1, 2, 3 :: 8 word]))"
    using h3 by (simp add: b)
  from p r s ce show ?thesis by simp
qed

subsection \<open>The download-then-install sequence\<close>

lemma list_all_True [simp]: "list_all (\<lambda>ev. True) evs"
  by (simp add: list_all_iff)

lemma install_driver_steps: "steps (\<lambda>ev. True) st (snd (install_driver env p st))"
proof (cases "input_result env (now st + 4) install_prompt")
  case (Inl e)
  then show ?thesis by (simp add: install_driver_input_raises)
next
  case (Inr line)
  show ?thesis
  proof (cases "lower (strip line) = ''yes''")
    case True
    show ?thesis
      unfolding install_driver_accept_cases [OF Inr True]
      by (simp split: sum.splits)
  next
    case False
    then show ?thesis by (simp add: install_driver_cancelled [OF Inr False])
  qed
qed

lemma download_then_install_steps:
  "steps (\<lambda>ev. True) st (snd (download_then_install env url p st))"
proof -
  obtain r s where d: "download_driver env url p st = (r, s)"
    by (cases "download_driver env url p st")
  with download_driver_steps [of st env url p] have "steps silent st s" by simp
  then have s: "steps (\<lambda>ev. True) st s" by (rule steps_mono) simp
  show ?thesis
  proof (cases r)
    case (Inl e)
    with d s show ?thesis by (simp add: download_then_install_def)
  next
    case (Inr ok)
    show ?thesis
    proof (cases ok)
      case True
      with d Inr s install_driver_steps [of s env p] show ?thesis
        by (auto simp: download_then_install_def intro: steps_trans)
    next
      case False
      with d Inr s show ?thesis
        by (auto simp: download_then_install_def print_emits intro: steps_emits_after)
    qed
  qed
qed

lemma download_then_install_failed:
  assumes "fst (download_driver env url p st) = Inr False"
  shows "download_then_install env url p st =
      (Inr False,
       emits [Print ''Download failed. Please try manually:'', Print (''Visit: '' @ manual_url)]
         (snd (download_driver env url p st)))"
    and "steps silent st (snd (download_then_install env url p st))"
proof -
  obtain s where d: "download_driver env url p st = (Inr False, s)"
    using assms by (cases "download_driver env url p st") simp
  then show "download_then_install env url p st =
      (Inr False,
       emits [Print ''Download failed. Please try manually:'', Print (''Visit: '' @ manual_url)]
         (snd (download_driver env url p st)))"
    by (simp add: download_then_install_def print_emits)
  moreover from d download_driver_steps [of st env url p] have "steps silent st s" by simp
  ultimately show "steps silent st (snd (download_then_install env url p st))"
    using d by (auto intro: steps_emits_after)
qed

lemma download_and_install_driver_eq:
  "download_and_install_driver env version st =
     (fst (sequence_body env version st),
      cleanup (temp_name env (now st)) (snd (sequence_body env version st)))"
  by (simp add: download_and_install_driver_def sequence_body_def mkdtemp_def Let_def emit_emits
      emits_def now_def split: prod.splits)


lemma cleanup_simps [simp]:
  "trace (cleanup d s) = trace s @ [Rmtree d]"
  "files (cleanup d s) p = (if inside d p then None else files s p)"
  "dirs (cleanup d s) = {x \<in> dirs s. x \<noteq> d \<and> \<not> inside d x}"
  by (simp_all add: cleanup_def emit_def)

lemma created_simps [simp]:
  "trace (emits evs (st\<lparr>dirs := ds\<rparr>)) = trace st @ evs"
  "now (emits evs (st\<lparr>dirs := ds\<rparr>)) = now st + length evs"
  by (simp_all add: emits_def now_def)

lemma sequence_body_trace:
  "\<exists>evs. trace (snd (sequence_body env version st))
      = trace st @ Mkdtemp (temp_name env (now st)) # evs"
proof -
  let ?d = "temp_name env (now st)"
  let ?st1 = "emits [Mkdtemp ?d] (st\<lparr>dirs := insert ?d (dirs st)\<rparr>)"
  have "steps (\<lambda>ev. True) ?st1 (snd (sequence_body env version st))"
    unfolding sequence_body_def by (rule download_then_install_steps)
  then obtain evs where "trace (snd (sequence_body env version st)) = trace ?st1 @ evs"
    by (auto simp: steps_iff)
  then show ?thesis by simp
qed

lemma driver_path_inside:
  assumes "d \<noteq> []" and "last d \<noteq> CHR ''/''"
  shows "inside d (path_join d (''NVIDIA-Linux-x86_64-'' @ version @ ''.run''))"
  using assms by (simp add: inside_def path_join_def)

lemma download_and_install_driver_steps:
  "steps (\<lambda>ev. True) st (snd (download_and_install_driver env version st))"
proof -
  obtain evs where "trace (snd (sequence_body env version st))
      = trace st @ Mkdtemp (temp_name env (now st)) # evs"
    using sequence_body_trace by blast
  then show ?thesis
    by (simp add: download_and_install_driver_eq steps_iff)
qed

lemma drop_value_snd [simp]: "snd (drop_value r) = snd r"
  by (cases r; cases "fst r") (auto simp: drop_value_def)


subsection \<open>Claim about the download-then-install sequence\<close>

text \<open>
  Claim C8.  Every call of \<open>_download_and_install_driver\<close> first creates a temporary
  directory and, whatever happens in the block (the download fails or goes through,
  the installation fails, is declined or goes through, or an exception leaves the
  block), its last event is the removal of that directory: afterwards the directory
  does not exist and no file is left below it, in particular not the downloaded
  installer.  The value returned or the exception raised is that of the block.  When
  \<open>download_driver\<close> returns \<open>False\<close>, the sequence prints the manual-download address
  and returns \<open>False\<close>, and neither \<open>input\<close> nor \<open>subprocess.run\<close> is called: the
  installer is not invoked.
\<close>

theorem temporary_directory_removed:
  assumes "d = temp_name env (now st)"
    and "driver_path = path_join d (''NVIDIA-Linux-x86_64-'' @ version @ ''.run'')"
    and "created = emits [Mkdtemp d] (st\<lparr>dirs := insert d (dirs st)\<rparr>)"
    and "st' = snd (download_and_install_driver env version st)"
  shows "(\<exists>evs. trace st' = trace st @ Mkdtemp d # evs @ [Rmtree d])
    \<and> fst (download_and_install_driver env version st)
        = fst (download_then_install env (get_download_url version) driver_path created)
    \<and> d \<notin> dirs st'
    \<and> (\<forall>p. inside d p \<longrightarrow> files st' p = None)
    \<and> (d \<noteq> [] \<and> last d \<noteq> CHR ''/'' \<longrightarrow> files st' driver_path = None)
    \<and> (fst (download_driver env (get_download_url version) driver_path created) = Inr False \<longrightarrow>
          download_and_install_driver env version st =
            (Inr False,
             cleanup d
               (emits [Print ''Download failed. Please try manually:'',
                       Print (''Visit: '' @ manual_url)]
                  (snd (download_driver env (get_download_url version) driver_path created))))
          \<and> list_all silent (new_events st st'))"
proof -
  have sb: "sequence_body env version st
      = download_then_install env (get_download_url version) driver_path created"
    by (simp add: sequence_body_def assms)
  have eq: "download_and_install_driver env version st
      = (fst (sequence_body env version st), cleanup d (snd (sequence_body env version st)))"
    by (simp add: download_and_install_driver_eq assms(1))
  then have st': "st' = cleanup d (snd (sequence_body env version st))"
    by (simp add: assms(4))
  obtain evs where evs: "trace (snd (sequence_body env version st)) = trace st @ Mkdtemp d # evs"
    using sequence_body_trace [of env version st] assms(1) by auto
  have 1: "\<exists>evs. trace st' = trace st @ Mkdtemp d # evs @ [Rmtree d]"
    by (simp add: st' evs)
  have 2: "fst (download_and_install_driver env version st)
      = fst (download_then_install env (get_download_url version) driver_path created)"
    by (simp add: eq sb)
  have 3: "d \<notin> dirs st'" by (simp add: st')
  have 4: "\<forall>p. inside d p \<longrightarrow> files st' p = None" by (simp add: st')
  have 5: "files st' driver_path = None" if "d \<noteq> [] \<and> last d \<noteq> CHR ''/''"
    using that 4 driver_path_inside [of d version] by (simp add: assms(2))
  have 6: "download_and_install_driver env version st =
        (Inr False,
         cleanup d
           (emits [Print ''Download failed. Please try manually:'',
                   Print (''Visit: '' @ manual_url)]
              (snd (download_driver env (get_download_url version) driver_path created))))
      \<and> list_all silent (new_events st st')"
    if f: "fst (download_driver env (get_download_url version) driver_path created) = Inr False"
  proof -
    note failed = download_then_install_failed [OF f]
    have a: "download_and_install_driver env version st =
        (Inr False,
         cleanup d
           (emits [Print ''Download failed. Please try manually:'',
                   Print (''Visit: '' @ manual_url)]
              (snd (download_driver env (get_download_url version) driver_path created))))"
      by (simp add: eq sb failed(1))
    from failed(2) obtain es where es: "trace (snd (sequence_body env version st))
        = trace created @ es" "list_all silent es"
      by (auto simp: steps_iff sb)
    have "trace st' = trace st @ (Mkdtemp d # es @ [Rmtree d])"
      by (simp add: st' es(1) assms(3))
    then have "new_events st st' = Mkdtemp d # es @ [Rmtree d]"
      by (simp add: new_events_def now_def)
    with es(2) have "list_all silent (new_events st st')" by simp
    with a show ?thesis by simp
  qed
  from 1 2 3 4 5 6 show ?thesis by blast
qed


theorem temporary_directory_removed_witness:
  "(temp_name (steady_env (\<lambda>a. Inl FileNotFoundError) (\<lambda>u. Inl URLError) (\<lambda>q. Inl EOFError))
      (now st0) = ''/tmp/tmpa1b2c3''
   \<and> fst (download_and_install_driver
        (steady_env (\<lambda>a. Inl FileNotFoundError) (\<lambda>u. Inl URLError) (\<lambda>q. Inl EOFError))
        ''580.105.08'' st0) = Inr False
   \<and> ''/tmp/tmpa1b2c3'' \<notin> dirs (snd (download_and_install_driver
        (steady_env (\<lambda>a. Inl FileNotFoundError) (\<lambda>u. Inl URLError) (\<lambda>q. Inl EOFError))
        ''580.105.08'' st0))
   \<and> files (snd (download_and_install_driver
        (steady_env (\<lambda>a. Inl FileNotFoundError) (\<lambda>u. Inl URLError) (\<lambda>q. Inl EOFError))
        ''580.105.08'' st0))
        (path_join ''/tmp/tmpa1b2c3'' (''NVIDIA-Linux-x86_64-'' @ ''580.105.08'' @ ''.run'')) = None
   \<and> list_all silent (new_events st0 (snd (download_and_install_driver
        (steady_env (\<lambda>a. Inl FileNotFoundError) (\<lambda>u. Inl URLError) (\<lambda>q. Inl EOFError))
        ''580.105.08'' st0))))
   \<and> (fst (download_driver
      (steady_env (\<lambda>a. Inl FileNotFoundError) (\<lambda>u. Inr (bytes_response (Some ''3'') [1, 2, 3]))
         (\<lambda>q. Inl EOFError))
      (get_download_url ''580.105.08'')
      (path_join ''/tmp/tmpa1b2c3'' (''NVIDIA-Linux-x86_64-'' @ ''580.105.08'' @ ''.run''))
      (emits [Mkdtemp ''/tmp/tmpa1b2c3''] (st0\<lparr>dirs := insert ''/tmp/tmpa1b2c3'' (dirs st0)\<rparr>)))
     = Inr True
   \<and> fst (download_and_install_driver
        (steady_env (\<lambda>a. Inl FileNotFoundError) (\<lambda>u. Inr (bytes_response (Some ''3'') [1, 2, 3]))
           (\<lambda>q. Inl EOFError))
        ''580.105.08'' st0) = Inl EOFError
   \<and> ''/tmp/tmpa1b2c3'' \<notin> dirs (snd (download_and_install_driver
        (steady_env (\<lambda>a. Inl FileNotFoundError) (\<lambda>u. Inr (bytes_response (Some ''3'') [1, 2, 3]))
           (\<lambda>q. Inl EOFError))
        ''580.105.08'' st0))
   \<and> files (snd (download_and_install_driver
        (steady_env (\<lambda>a. Inl FileNotFoundError) (\<lambda>u. Inr (bytes_response (Some ''3'') [1, 2, 3]))
           (\<lambda>q. Inl EOFError))
        ''580.105.08'' st0))
        (path_join ''/tmp/tmpa1b2c3'' (''NVIDIA-Linux-x86_64-'' @ ''580.105.08'' @ ''.run'')) = None)"
proof -
  have failure: "temp_name (steady_env (\<lambda>a. Inl FileNotFoundError) (\<lambda>u. Inl URLError) (\<lambda>q. Inl EOFError))
      (now st0) = ''/tmp/tmpa1b2c3''
   \<and> fst (download_and_install_driver
        (steady_env (\<lambda>a. Inl FileNotFoundError) (\<lambda>u. Inl URLError) (\<lambda>q. Inl EOFError))
        ''580.105.08'' st0) = Inr False
   \<and> ''/tmp/tmpa1b2c3'' \<notin> dirs (snd (download_and_install_driver
        (steady_env (\<lambda>a. Inl FileNotFoundError) (\<lambda>u. Inl URLError) (\<lambda>q. Inl EOFError))
        ''580.105.08'' st0))
   \<and> files (snd (download_and_install_driver
        (steady_env (\<lambda>a. Inl FileNotFoundError) (\<lambda>u. Inl URLError) (\<lambda>q. Inl EOFError))
        ''580.105.08'' st0))
        (path_join ''/tmp/tmpa1b2c3'' (''NVIDIA-Linux-x86_64-'' @ ''580.105.08'' @ ''.run'')) = None
   \<and> list_all silent (new_events st0 (snd (download_and_install_driver
        (steady_env (\<lambda>a. Inl FileNotFoundError) (\<lambda>u. Inl URLError) (\<lambda>q. Inl EOFError))
        ''580.105.08'' st0)))"
  proof -
  let ?env = "steady_env (\<lambda>a. Inl FileNotFoundError) (\<lambda>u. Inl URLError) (\<lambda>q. Inl EOFError)"
  let ?d = "''/tmp/tmpa1b2c3''"
  let ?p = "path_join ?d (''NVIDIA-Linux-x86_64-'' @ ''580.105.08'' @ ''.run'')"
  let ?created = "emits [Mkdtemp ?d] (st0\<lparr>dirs := insert ?d (dirs st0)\<rparr>)"
  have d: "?d = temp_name ?env (now st0)"
    by (simp add: steady_env_def)
  have ne: "?d \<noteq> [] \<and> last ?d \<noteq> CHR ''/''"
    by simp
  have f: "fst (download_driver ?env (get_download_url ''580.105.08'') ?p ?created) = Inr False"
    by (simp add: download_driver_def download_body_chain steady_env_def is_Exception_def)
  have t: "temp_name ?env (now st0) = ?d"
    by (simp add: steady_env_def)
  let ?st' = "snd (download_and_install_driver ?env ''580.105.08'' st0)"
  note removed = temporary_directory_removed [OF d refl refl refl, of "''580.105.08''"]
  from removed have c3: "?d \<notin> dirs ?st'" by blast
  from removed ne have c5: "files ?st' ?p = None" by blast
  from removed f have c6: "download_and_install_driver ?env ''580.105.08'' st0 =
      (Inr False,
       cleanup ?d
         (emits [Print ''Download failed. Please try manually:'', Print (''Visit: '' @ manual_url)]
            (snd (download_driver ?env (get_download_url ''580.105.08'') ?p ?created))))
      \<and> list_all silent (new_events st0 ?st')"
    by blast
  then have c2: "fst (download_and_install_driver ?env ''580.105.08'' st0) = Inr False"
    by simp
  from t c2 c3 c5 c6 show ?thesis by blast
  qed
  have exception: "fst (download_driver
      (steady_env (\<lambda>a. Inl FileNotFoundError) (\<lambda>u. Inr (bytes_response (Some ''3'') [1, 2, 3]))
         (\<lambda>q. Inl EOFError))
      (get_download_url ''580.105.08'')
      (path_join ''/tmp/tmpa1b2c3'' (''NVIDIA-Linux-x86_64-'' @ ''580.105.08'' @ ''.run''))
      (emits [Mkdtemp ''/tmp/tmpa1b2c3''] (st0\<lparr>dirs := insert ''/tmp/tmpa1b2c3'' (dirs st0)\<rparr>)))
     = Inr True
   \<and> fst (download_and_install_driver
        (steady_env (\<lambda>a. Inl FileNotFoundError) (\<lambda>u. Inr (bytes_response (Some ''3'') [1, 2, 3]))
           (\<lambda>q. Inl EOFError))
        ''580.105.08'' st0) = Inl EOFError
   \<and> ''/tmp/tmpa1b2c3'' \<notin> dirs (snd (download_and_install_driver
        (steady_env (\<lambda>a. Inl FileNotFoundError) (\<lambda>u. Inr (bytes_response (Some ''3'') [1, 2, 3]))
           (\<lambda>q. Inl EOFError))
        ''580.105.08'' st0))
   \<and> files (snd (download_and_install_driver
        (steady_env (\<lambda>a. Inl FileNotFoundError) (\<lambda>u. Inr (bytes_response (Some ''3'') [1, 2, 3]))
           (\<lambda>q. Inl EOFError))
        ''580.105.08'' st0))
        (path_join ''/tmp/tmpa1b2c3'' (''NVIDIA-Linux-x86_64-'' @ ''580.105.08'' @ ''.run'')) = None"
  proof -
  let ?resp = "bytes_response (Some ''3'') [1, 2, 3]"
  let ?env = "steady_env (\<lambda>a. Inl FileNotFoundError) (\<lambda>u. Inr ?resp) (\<lambda>q. Inl EOFError)"
  let ?d = "''/tmp/tmpa1b2c3''"
  let ?p = "path_join ?d (''NVIDIA-Linux-x86_64-'' @ ''580.105.08'' @ ''.run'')"
  let ?url = "get_download_url ''580.105.08''"
  let ?created = "emits [Mkdtemp ?d] (st0\<lparr>dirs := insert ?d (dirs st0)\<rparr>)"
  let ?st' = "snd (download_and_install_driver ?env ''580.105.08'' st0)"
  have d: "?d = temp_name ?env (now st0)"
    by (simp add: steady_env_def)
  have ne: "?d \<noteq> [] \<and> last ?d \<noteq> CHR ''/''"
    by simp
  have hs: "header_size ?resp = Inr (Some 3)"
    by (rule header_size_digits [where h = "''3''"]) (simp add: bytes_response_def, code_simp)
  have "fst (download_body ?env ?url ?p ?created) = Inr True"
    by (rule download_body_no_fault [OF _ hs]) (simp_all add: steady_env_def bytes_response_def)
  then have t: "fst (download_driver ?env ?url ?p ?created) = Inr True"
    by (simp add: download_driver_True)
  then obtain s where dl: "download_driver ?env ?url ?p ?created = (Inr True, s)"
    by (metis prod.collapse)
  have "install_driver ?env ?p s = (Inl EOFError, emits (confirm_events ?p) s)"
    by (rule install_driver_input_raises) (simp add: steady_env_def)
  with dl have e: "fst (download_then_install ?env ?url ?p ?created) = Inl EOFError"
    by (simp add: download_then_install_def)
  note removed = temporary_directory_removed [OF d refl refl refl, of "''580.105.08''"]
  from removed e have c2: "fst (download_and_install_driver ?env ''580.105.08'' st0) = Inl EOFError"
    by simp
  from removed have c3: "?d \<notin> dirs ?st'" by blast
  from removed ne have c5: "files ?st' ?p = None" by blast
  from t c2 c3 c5 show ?thesis by blast
  qed
  from failure exception show ?thesis by blast
qed

subsection \<open>check\_for\_updates\<close>

lemma plus2: "n + 2 = Suc (Suc n)"
  by simp

lemma offer_update_older:
  assumes "compare_versions cur lat = Inr (- 1)"
  shows "offer_update env cur lat st =
    (Inr (), emits [Print ''Your driver is up to date (or newer than latest release)''] st)"
  using assms by (simp add: offer_update_def print_emits)

lemma offer_update_equal:
  assumes "compare_versions cur lat = Inr 0"
  shows "offer_update env cur lat st = (Inr (), emits [Print ''Your driver is up to date''] st)"
  using assms by (simp add: offer_update_def print_emits)

lemma offer_update_newer:
  assumes "compare_versions cur lat = Inr 1"
  shows "offer_update env cur lat st =
    (case input_result env (now st + 2) update_prompt of
       Inl e \<Rightarrow> (Inl e, emits offer_events st)
     | Inr line \<Rightarrow>
         if lower (strip line) = ''yes''
         then drop_value (download_and_install_driver env lat (emits offer_events st))
         else (Inr (), emits (offer_events @ decline_events) st))"
  using assms
  by (simp add: offer_update_def io_emits Let_def offer_events_def decline_events_def
      drop_value_def plus2 split: sum.splits)

lemma check_for_updates_compares:
  assumes "fst (get_driver_version env st) = Inr (Some cur)" and "cur \<noteq> []"
    and "get_latest_driver_version env (update_fetch_state st) = (Inr (Some lat), st2)"
    and "lat \<noteq> []"
  shows "check_for_updates env st = offer_update env cur lat (emits (versions_events cur lat) st2)"
proof -
  have d: "get_driver_version env st = (Inr (Some cur), emits [Run version_query 5] st)"
    using assms(1) get_driver_version_state [of env st]
    by (cases "get_driver_version env st") simp
  show ?thesis
    using assms(2-4)
    by (simp add: check_for_updates_def d Let_def print_emits update_fetch_state_def truthy_def
        versions_events_def)
qed

subsection \<open>Claim about check\_for\_updates\<close>

text \<open>
  Claim C3.  Take a run of \<open>check_for_updates\<close> in which the current version is
  available and the latest version is resolved, and let \<open>st3\<close> be the state after both
  versions are printed.  If \<open>compare_versions\<close> returns -1 (OLDER) or 0 (EQUAL), the
  only further event is the message that the driver is up to date: no question is
  asked and the download-then-install sequence is not started.  If it returns 1
  (NEWER), the next events announce the newer version and ask the question; on the
  answer \<open>yes\<close> the sequence is run for the latest version, on any other answer the
  manual-update guidance is printed.  An \<open>input\<close> after \<open>st3\<close> occurs only when the
  comparison returned 1.
\<close>

theorem check_for_updates_decision:
  assumes "fst (get_driver_version env st) = Inr (Some cur)" and "cur \<noteq> []"
    and "get_latest_driver_version env (update_fetch_state st) = (Inr (Some lat), st2)"
    and "lat \<noteq> []"
    and "st3 = emits (versions_events cur lat) st2"
  shows "(compare_versions cur lat = Inr (- 1) \<longrightarrow>
            check_for_updates env st =
              (Inr (), emits [Print ''Your driver is up to date (or newer than latest release)''] st3))
    \<and> (compare_versions cur lat = Inr 0 \<longrightarrow>
            check_for_updates env st = (Inr (), emits [Print ''Your driver is up to date''] st3))
    \<and> (compare_versions cur lat = Inr 1 \<longrightarrow>
            take 3 (new_events st3 (snd (check_for_updates env st))) = offer_events
          \<and> (\<forall>line. input_result env (now st3 + 2) update_prompt = Inr line \<longrightarrow>
                check_for_updates env st =
                  (if lower (strip line) = ''yes''
                   then drop_value (download_and_install_driver env lat (emits offer_events st3))
                   else (Inr (), emits (offer_events @ decline_events) st3))))
    \<and> ((\<exists>ev \<in> set (new_events st3 (snd (check_for_updates env st))). is_Input ev) \<longrightarrow>
            compare_versions cur lat = Inr 1)"
proof -
  have c: "check_for_updates env st = offer_update env cur lat st3"
    unfolding assms(5) using assms(1-4) by (rule check_for_updates_compares)
  have older: "check_for_updates env st =
      (Inr (), emits [Print ''Your driver is up to date (or newer than latest release)''] st3)"
    if "compare_versions cur lat = Inr (- 1)"
    using that by (simp add: c offer_update_older)
  have equal: "check_for_updates env st = (Inr (), emits [Print ''Your driver is up to date''] st3)"
    if "compare_versions cur lat = Inr 0"
    using that by (simp add: c offer_update_equal)
  have newer: "check_for_updates env st =
      (if lower (strip line) = ''yes''
       then drop_value (download_and_install_driver env lat (emits offer_events st3))
       else (Inr (), emits (offer_events @ decline_events) st3))"
    if "compare_versions cur lat = Inr 1" "input_result env (now st3 + 2) update_prompt = Inr line"
    for line
    using that by (simp add: c offer_update_newer)
  have only: "compare_versions cur lat = Inr 1"
    if "\<exists>ev \<in> set (new_events st3 (snd (check_for_updates env st))). is_Input ev"
    using that compare_versions_cases [of cur lat] by (auto simp: older equal)
  have offer: "take 3 (new_events st3 (snd (check_for_updates env st))) = offer_events"
    if n: "compare_versions cur lat = Inr 1"
  proof -
    have len: "length offer_events = 3" by (simp add: offer_events_def)
    show ?thesis
    proof (cases "input_result env (now st3 + 2) update_prompt")
      case (Inl e)
      then show ?thesis by (simp add: c offer_update_newer [OF n] len)
    next
      case (Inr line)
      show ?thesis
      proof (cases "lower (strip line) = ''yes''")
        case True
        let ?s = "emits offer_events st3"
        obtain evs where "trace (snd (download_and_install_driver env lat ?s)) = trace ?s @ evs"
          using download_and_install_driver_steps [of ?s env lat] by (auto simp: steps_iff)
        then have "new_events st3 (snd (download_and_install_driver env lat ?s))
            = offer_events @ evs"
          by (simp add: new_events_def now_def)
        with True Inr show ?thesis by (simp add: c offer_update_newer [OF n] len)
      next
        case False
        with Inr show ?thesis by (simp add: c offer_update_newer [OF n] len)
      qed
    qed
  qed
  show ?thesis
    using older equal newer only offer by blast
qed


theorem check_for_updates_decision_witness:
  "fst (get_driver_version
      (steady_env (\<lambda>a. Inr \<lparr>returncode = 0, stdout = ''580.105.08''\<rparr>)
         (\<lambda>u. Inr (text_response ''580.105.08 580.105.08/NVIDIA-Linux-x86_64-580.105.08.run''))
         (\<lambda>q. Inl EOFError)) st0) = Inr (Some ''580.105.08'')
   \<and> compare_versions ''580.105.08'' ''580.105.08'' = Inr 0
   \<and> check_for_updates
      (steady_env (\<lambda>a. Inr \<lparr>returncode = 0, stdout = ''580.105.08''\<rparr>)
         (\<lambda>u. Inr (text_response ''580.105.08 580.105.08/NVIDIA-Linux-x86_64-580.105.08.run''))
         (\<lambda>q. Inl EOFError)) st0 =
      (Inr (),
       emits [Print ''Your driver is up to date'']
         (emits (versions_events ''580.105.08'' ''580.105.08'')
            (emits fetch_events (update_fetch_state st0))))"
proof -
  let ?text = "''580.105.08 580.105.08/NVIDIA-Linux-x86_64-580.105.08.run''"
  let ?env = "steady_env (\<lambda>a. Inr \<lparr>returncode = 0, stdout = ''580.105.08''\<rparr>)
      (\<lambda>u. Inr (text_response ?text)) (\<lambda>q. Inl EOFError)"
  have s: "strip ''580.105.08'' = ''580.105.08''"
    by code_simp
  have h1: "fst (get_driver_version ?env st0) = Inr (Some ''580.105.08'')"
    by (simp add: get_driver_version_eq steady_env_def s)
  have h2: "''580.105.08'' \<noteq> []"
    by simp
  have t: "first_token ?text = ''580.105.08''" "\<not> (\<forall>c \<in> set ?text. is_space c)"
    by code_simp+
  have h3: "get_latest_driver_version ?env (update_fetch_state st0)
      = (Inr (Some ''580.105.08''), emits fetch_events (update_fetch_state st0))"
    using t
    by (subst get_latest_driver_version_ok
          [of ?env "update_fetch_state st0" "text_response ?text" ?text])
      (simp_all add: steady_env_def text_response_def)
  have h4: "compare_versions ''580.105.08'' ''580.105.08'' = Inr 0"
    by (simp add: string_eval)
  from check_for_updates_decision [OF h1 h2 h3 h2 refl] h1 h4
  show ?thesis by simp
qed

subsection \<open>Which exceptions leave the functions\<close>
























subsection \<open>run\_check\<close>











subsection \<open>The exit status, and the end of the input at the question\<close>









subsection \<open>Claim about run\_check\<close>




end
